theory Spec2Isabelle
  imports Main "HOL-Library.Sublist"
begin

section \<open>The audio resampling stage: FilterResampler\<close>

text \<open>
  A shallow embedding of \<^verbatim>\<open>src/projects/transcoder/filter/filter_resampler.cpp\<close>.
  The class drives an external filter graph (libavfilter) from a worker thread that
  takes media frames out of a queue.  What the file calls but does not define
  (libavfilter and the frame converters of ffmpeg::Conv) is a parameter of the model:
  a record of functions over an abstract state \<open>'w\<close> of the library.  The queue
  class ov::Queue is modelled from its contract.
\<close>

subsection \<open>Data\<close>

text \<open>cmn::Timebase, read through GetNum() and GetDen().\<close>

record Timebase =
  GetNum :: int
  GetDen :: int

text \<open>libavutil's AVRational: a pair of C ints, numerator and denominator.\<close>

record AVRational =
  num :: int
  den :: int

text \<open>
  MediaTrack, with one field for each getter that Configure calls.  A shared pointer to
  a track is a \<open>MediaTrack option\<close>: \<open>None\<close> is the null pointer.
\<close>

record MediaTrack =
  GetId :: nat
  GetTimeBase :: Timebase
  GetSampleRate :: int
  GetSampleName :: string
  GetChannelName :: string
  GetAudioSamplesPerFrame :: int

text \<open>
  libavutil's AVFrame, with the fields that the file reads (line 208).  The sample data
  stays inside the library and the converters.
\<close>

record AVFrame =
  pts :: int
  linesize0 :: int
  sample_rate :: int
  channel_layout :: int
  channels :: int
  format :: int

datatype MediaType = Video | Audio

type_synonym ptr = nat

text \<open>libavfilter's AVFilterGraph handle with its public field nb_threads.\<close>

record AVFilterGraph =
  graph_id :: ptr
  nb_threads :: int

text \<open>libavfilter's AVFilterInOut: one element of a list of open pads.\<close>

record AVFilterInOut =
  inout_name :: "string option"
  filter_ctx :: "ptr option"
  pad_idx :: int
  inout_next :: "ptr option"

text \<open>
  The argument strings handed to the library are built with ov::String::FormatString and
  ov::String::Join, which are not part of the file.  A string is represented by the
  values that are formatted into it, in the order of lines 85-89 and 101-106.
\<close>

datatype filter_args =
    NoArgs
  | SrcArgs Timebase int string string

datatype output_filters =
    OutputFilters Timebase int string string int

text \<open>
  A C double as far as the file looks at it: \<^verbatim>\<open>isnan\<close> asks for its class only.
  A finite value is kept as the exact quotient it rounds.
\<close>

datatype fdouble = NaN | Infinity bool | Finite int int

fun isnan :: "fdouble \<Rightarrow> bool" where
  "isnan NaN = True"
| "isnan (Infinity _) = False"
| "isnan (Finite _ _) = False"


subsection \<open>What the stage does to the outside: the trace\<close>

datatype log_level = LogError | LogInfo | LogDebug

text \<open>
  One event for each effect that leaves the object: a log line (level, format string and
  its integer arguments), a frame handed over by a producer, a frame taken out of the
  queue by the worker, a call of av_buffersrc_add_frame_flags with the frame fed and the
  code returned, a call of av_buffersink_get_frame with the code returned and the frame
  that \<^verbatim>\<open>_frame\<close> holds after it, a call of the completion handler, a call of
  avfilter_graph_free, the frames that \<^verbatim>\<open>_input_buffer.Clear()\<close> throws away, and
  the report of a queue over its threshold.  The arguments of a log line that are not
  integers (\<^verbatim>\<open>%p\<close>, \<^verbatim>\<open>%s\<close>) are left out.
\<close>

datatype 'm event =
    Log log_level string "int list"
  | Enqueued 'm
  | Dequeued 'm
  | Feed AVFrame int
  | Receive int AVFrame
  | Deliver 'm
  | GraphFree ptr
  | Cleared "'m list"
  | QueueOverThreshold nat

subsection \<open>The queue\<close>

text \<open>
  Modelled from the spec: ov::Queue (the type of \<^verbatim>\<open>_input_buffer\<close>) is not under src/.
  Section 4.1: Enqueue appends a frame and never blocks; crossing the threshold drops
  nothing and is reported; Dequeue blocks until a frame is available or the queue is
  stopped and returns a frame, or nothing on stop; Stop is permanent and makes every
  later Dequeue return nothing; Size is the depth; the order is FIFO.  A Dequeue that
  would wait is the answer \<open>Blocks\<close>.  The file also calls SetAlias, SetThreshold and
  Clear, which section 4.1 does not describe: they set the name and the threshold and empty
  the queue.
\<close>

record 'm Queue =
  items :: "'m list"
  stopped :: bool
  threshold :: nat
  queue_name :: string

datatype 'm dequeued = Blocks | Nothing | Item 'm "'m Queue"

definition Queue_new :: "'m Queue" where
  "Queue_new = \<lparr>items = [], stopped = False, threshold = 0, queue_name = []\<rparr>"

definition SetAlias :: "string \<Rightarrow> 'm Queue \<Rightarrow> 'm Queue" where
  "SetAlias a q = q\<lparr>queue_name := a\<rparr>"

definition SetThreshold :: "nat \<Rightarrow> 'm Queue \<Rightarrow> 'm Queue" where
  "SetThreshold n q = q\<lparr>threshold := n\<rparr>"

definition Enqueue :: "'m \<Rightarrow> 'm Queue \<Rightarrow> 'm Queue" where
  "Enqueue f q = q\<lparr>items := items q @ [f]\<rparr>"

definition Size :: "'m Queue \<Rightarrow> nat" where
  "Size q = length (items q)"

definition over_threshold :: "'m Queue \<Rightarrow> bool" where
  "over_threshold q = (threshold q < Size q)"

definition Dequeue :: "'m Queue \<Rightarrow> 'm dequeued" where
  "Dequeue q =
     (if stopped q then Nothing
      else case items q of
             [] \<Rightarrow> Blocks
           | f # fs \<Rightarrow> Item f (q\<lparr>items := fs\<rparr>))"

definition Queue_Stop :: "'m Queue \<Rightarrow> 'm Queue" where
  "Queue_Stop q = q\<lparr>stopped := True\<rparr>"

definition Clear :: "'m Queue \<Rightarrow> 'm Queue" where
  "Clear q = q\<lparr>items := []\<rparr>"

subsection \<open>The external library\<close>

text \<open>
  libavfilter, libavutil's frame functions and the converters ffmpeg::Conv::ToAVFrame
  and ffmpeg::Conv::ToMediaFrame.  A call takes the library's state and returns the new
  one; a pointer result is an option.  av_buffersink_get_frame gets the object's
  \<^verbatim>\<open>_frame\<close> and returns what it holds afterwards.
\<close>

record ('w, 'm) externals =
  av_frame_alloc :: "'w \<Rightarrow> AVFrame \<times> 'w"
  avfilter_inout_alloc :: "'w \<Rightarrow> AVFilterInOut option \<times> 'w"
  avfilter_graph_alloc :: "'w \<Rightarrow> AVFilterGraph option \<times> 'w"
  avfilter_graph_create_filter ::
    "'w \<Rightarrow> string \<Rightarrow> string \<Rightarrow> filter_args \<Rightarrow> AVFilterGraph \<Rightarrow> (int \<times> ptr option) \<times> 'w"
  av_strdup :: "'w \<Rightarrow> string \<Rightarrow> string option \<times> 'w"
  avfilter_graph_parse_ptr ::
    "'w \<Rightarrow> AVFilterGraph \<Rightarrow> output_filters \<Rightarrow> AVFilterInOut option \<Rightarrow> AVFilterInOut option
       \<Rightarrow> (int \<times> AVFilterInOut option \<times> AVFilterInOut option) \<times> 'w"
  avfilter_graph_config :: "'w \<Rightarrow> AVFilterGraph \<Rightarrow> int \<times> 'w"
  av_buffersrc_add_frame_flags :: "'w \<Rightarrow> ptr option \<Rightarrow> AVFrame \<Rightarrow> int \<times> 'w"
  av_buffersink_get_frame :: "'w \<Rightarrow> ptr option \<Rightarrow> AVFrame \<Rightarrow> (int \<times> AVFrame) \<times> 'w"
  av_frame_unref :: "AVFrame \<Rightarrow> AVFrame"
  ToAVFrame :: "MediaType \<Rightarrow> 'm \<Rightarrow> AVFrame option"
  ToMediaFrame :: "MediaType \<Rightarrow> AVFrame \<Rightarrow> 'm option"

text \<open>
  The error codes of libavutil on Linux: \<^verbatim>\<open>AVERROR(EAGAIN)\<close> is \<open>- 11\<close> and
  \<^verbatim>\<open>AVERROR_EOF\<close> is \<^verbatim>\<open>FFERRTAG('E','O','F',' ')\<close>.
\<close>

definition AVERROR_EAGAIN :: int where
  "AVERROR_EAGAIN = - 11"

definition AVERROR_EOF :: int where
  "AVERROR_EOF = - 541478725"

subsection \<open>The object\<close>

text \<open>
  std::thread as the file uses it: not a thread (never started, or joined), running
  FilterThread, or returned from FilterThread and not yet joined.
\<close>

datatype thread_state = NotAThread | Running | Returned

fun joinable :: "thread_state \<Rightarrow> bool" where
  "joinable NotAThread = False"
| "joinable Running = True"
| "joinable Returned = True"

text \<open>
  The members of FilterResampler (the leading underscore of a member's name is dropped),
  then the state of the library and the trace.  \<open>complete_handler\<close> tells whether a
  handler is registered; what a handler does is the consumer's business, and its call is
  the event \<open>Deliver\<close>.  \<open>destroyed\<close> is set by the destructor.
\<close>

record ('w, 'm) FilterResampler =
  frame :: AVFrame
  inputs :: "AVFilterInOut option"
  outputs :: "AVFilterInOut option"
  filter_graph :: "AVFilterGraph option"
  buffersrc_ctx :: "ptr option"
  buffersink_ctx :: "ptr option"
  input_track :: "MediaTrack option"
  output_track :: "MediaTrack option"
  scale :: fdouble
  kill_flag :: bool
  input_buffer :: "'m Queue"
  thread_work :: thread_state
  complete_handler :: bool
  destroyed :: bool
  libav :: 'w
  trace :: "'m event list"

definition emit :: "'m event list \<Rightarrow> ('w, 'm) FilterResampler \<Rightarrow> ('w, 'm) FilterResampler" where
  "emit es s = s\<lparr>trace := trace s @ es\<rparr>"

text \<open>
  Lines 16-29.  The constructor asserts that av_frame_alloc gave a frame (line 26), and
  the model has one in \<^verbatim>\<open>_frame\<close>; the two pad lists may be null, since Configure tests
  them.  The initial values of the other members are in the header, which is not part of
  the file: no graph, no contexts, no tracks, no thread, the kill flag not set.
\<close>

definition FilterResampler_new ::
  "('w, 'm) externals \<Rightarrow> bool \<Rightarrow> 'w \<Rightarrow> ('w, 'm) FilterResampler" where
  "FilterResampler_new ext handler w0 =
     (let (fr, w1) = av_frame_alloc ext w0;
          (outs, w2) = avfilter_inout_alloc ext w1;
          (ins, w3) = avfilter_inout_alloc ext w2
      in \<lparr>frame = fr, inputs = ins, outputs = outs, filter_graph = None,
          buffersrc_ctx = None, buffersink_ctx = None,
          input_track = None, output_track = None, scale = Finite 0 1,
          kill_flag = False,
          input_buffer = SetThreshold 100 (SetAlias ''Input queue of media resampler filter'' Queue_new),
          thread_work = NotAThread, complete_handler = handler, destroyed = False,
          libav = w3, trace = []\<rparr>)"

text \<open>What a call can end in besides returning: the two ways the file can bring the process down.\<close>

datatype abort = NullDereference | StdTerminate

datatype 'a outcome = Returns 'a | Aborts abort

subsection \<open>Rational arithmetic of libavutil\<close>

text \<open>
  \<^verbatim>\<open>ffmpeg::Conv::TimebaseToAVRational\<close> copies numerator and denominator.  av_q2d is
  \<^verbatim>\<open>a.num / (double) a.den\<close>: by IEEE 754 a division of zero by zero is a NaN, of
  another number by zero an infinity with the numerator's sign.  av_div_q multiplies by
  the reciprocal, and av_mul_q reduces the 64-bit products with av_reduce, whose loop
  over the continued fraction runs when a reduced product exceeds \<^verbatim>\<open>INT_MAX\<close>.
  These functions are libavutil's, not the repository's.  The integers are mathematical
  ones: the product of two C ints is exact in 64 bits, and the convergents the loop
  computes are bounded by the reduced products.
\<close>

definition TimebaseToAVRational :: "Timebase \<Rightarrow> AVRational" where
  "TimebaseToAVRational tb = \<lparr>num = GetNum tb, den = GetDen tb\<rparr>"

definition av_q2d :: "AVRational \<Rightarrow> fdouble" where
  "av_q2d a =
     (if den a = 0 then (if num a = 0 then NaN else Infinity (num a < 0))
      else Finite (num a) (den a))"

definition INT_MAX :: int where
  "INT_MAX = 2147483647"

function av_reduce_loop :: "int \<Rightarrow> AVRational \<Rightarrow> AVRational \<Rightarrow> int \<Rightarrow> int \<Rightarrow> AVRational" where
  "av_reduce_loop mx a0 a1 n d =
     (if d = 0 then a1
      else
        let x = n div d;
            next_den = n - d * x;
            a2n = x * num a1 + num a0;
            a2d = x * den a1 + den a0
        in if a2n > mx \<or> a2d > mx then
             (let x1 = (if num a1 \<noteq> 0 then (mx - num a0) div num a1 else x);
                  x2 = (if den a1 \<noteq> 0 then min x1 ((mx - den a0) div den a1) else x1)
              in if d * (2 * x2 * den a1 + den a0) > n * den a1
                 then \<lparr>num = x2 * num a1 + num a0, den = x2 * den a1 + den a0\<rparr>
                 else a1)
           else av_reduce_loop mx a1 \<lparr>num = a2n, den = a2d\<rparr> d next_den)"
  by pat_completeness auto
termination
proof (relation "measure (\<lambda>(mx, a0, a1, n, d). nat \<bar>d\<bar>)")
  show "wf (measure (\<lambda>(mx, a0, a1, n, d). nat \<bar>d\<bar>))"
    by simp
next
  fix mx :: int and a0 a1 :: AVRational and n d x next_den a2n a2d :: int
  assume d: "d \<noteq> 0" and x: "x = n div d" and nd: "next_den = n - d * x"
  have "next_den = n mod d"
    using x nd by (simp add: minus_mult_div_eq_mod)
  then have "\<bar>next_den\<bar> < \<bar>d\<bar>"
    using d by (simp add: abs_mod_less)
  then show "((mx, a1, \<lparr>num = a2n, den = a2d\<rparr>, d, next_den), (mx, a0, a1, n, d))
               \<in> measure (\<lambda>(mx, a0, a1, n, d). nat \<bar>d\<bar>)"
    by simp
qed

declare av_reduce_loop.simps [simp del]

definition av_reduce :: "int \<Rightarrow> int \<Rightarrow> int \<Rightarrow> AVRational" where
  "av_reduce n0 d0 mx =
     (let sign = ((n0 < 0) \<noteq> (d0 < 0));
          g = gcd \<bar>n0\<bar> \<bar>d0\<bar>;
          n = (if g \<noteq> 0 then \<bar>n0\<bar> div g else n0);
          d = (if g \<noteq> 0 then \<bar>d0\<bar> div g else d0);
          a1 = (if n \<le> mx \<and> d \<le> mx then \<lparr>num = n, den = d\<rparr>
                else av_reduce_loop mx \<lparr>num = 0, den = 1\<rparr> \<lparr>num = 1, den = 0\<rparr> n d)
      in \<lparr>num = (if sign then - num a1 else num a1), den = den a1\<rparr>)"

definition av_mul_q :: "AVRational \<Rightarrow> AVRational \<Rightarrow> AVRational" where
  "av_mul_q b c = av_reduce (num b * num c) (den b * den c) INT_MAX"

definition av_div_q :: "AVRational \<Rightarrow> AVRational \<Rightarrow> AVRational" where
  "av_div_q b c = av_mul_q b \<lparr>num = den c, den = num c\<rparr>"

subsection \<open>Configure (lines 45-149)\<close>

text \<open>
  Lines 85-149: the source and sink filters, the two pad lists, the parse of the filter
  string and the validation of the graph.  \<open>g\<close>, \<open>ins\<close> and \<open>outs\<close> are what
  \<^verbatim>\<open>_filter_graph\<close>, \<^verbatim>\<open>_inputs\<close> and \<^verbatim>\<open>_outputs\<close> point to; line 56 has found
  them not null.  Every failure is a plain \<^verbatim>\<open>return false\<close>.
\<close>

definition Configure_filters ::
  "('w, 'm) externals \<Rightarrow> MediaTrack \<Rightarrow> MediaTrack \<Rightarrow> AVFilterGraph \<Rightarrow> AVFilterInOut \<Rightarrow> AVFilterInOut
     \<Rightarrow> ('w, 'm) FilterResampler \<Rightarrow> bool outcome \<times> ('w, 'm) FilterResampler" where
  "Configure_filters ext it ot g ins outs s =
     (let src_args = SrcArgs (GetTimeBase it) (GetSampleRate it) (GetSampleName it) (GetChannelName it);
          ((ret1, src), w1) = avfilter_graph_create_filter ext (libav s) ''abuffer'' ''in'' src_args g;
          s1 = s\<lparr>buffersrc_ctx := src, libav := w1\<rparr>
      in if ret1 < 0 then
           (Returns False,
            emit [Log LogError ''Could not create audio buffer source filter for resampling: %d'' [ret1]] s1)
         else
           let output_filters = OutputFilters (GetTimeBase ot) (GetSampleRate ot) (GetSampleName ot)
                                  (GetChannelName ot) (GetAudioSamplesPerFrame ot);
               ((ret2, snk), w2) = avfilter_graph_create_filter ext (libav s1) ''abuffersink'' ''out'' NoArgs g;
               s2 = s1\<lparr>buffersink_ctx := snk, libav := w2\<rparr>
           in if ret2 < 0 then
                (Returns False,
                 emit [Log LogError ''Could not create audio buffer sink filter for resampling: %d'' [ret2]] s2)
              else
                let (name_in, w3) = av_strdup ext (libav s2) ''in'';
                    outs' = outs\<lparr>inout_name := name_in, filter_ctx := buffersrc_ctx s2,
                                 pad_idx := 0, inout_next := None\<rparr>;
                    (name_out, w4) = av_strdup ext w3 ''out'';
                    ins' = ins\<lparr>inout_name := name_out, filter_ctx := buffersink_ctx s2,
                               pad_idx := 0, inout_next := None\<rparr>;
                    s3 = s2\<lparr>outputs := Some outs', inputs := Some ins', libav := w4\<rparr>
                in if inout_name outs' = None \<or> inout_name ins' = None then (Returns False, s3)
                   else
                     let ((ret3, ins'', outs''), w5) =
                           avfilter_graph_parse_ptr ext (libav s3) g output_filters (inputs s3) (outputs s3);
                         s4 = s3\<lparr>inputs := ins'', outputs := outs'', libav := w5\<rparr>
                     in if ret3 < 0 then
                          (Returns False,
                           emit [Log LogError ''Could not parse filter string for resampling: %d (%s)'' [ret3]] s4)
                        else
                          let (ret4, w6) = avfilter_graph_config ext (libav s4) g;
                              s5 = s4\<lparr>libav := w6\<rparr>
                          in if ret4 < 0 then
                               (Returns False,
                                emit [Log LogError ''Could not validate filter graph for resampling: %d'' [ret4]] s5)
                             else
                               (Returns True,
                                emit [Log LogInfo
                                        ''Resampler is enabled for track #%u using parameters. input: %s / outputs: %s''
                                        [int (GetId it)]] s5))"

text \<open>
  Lines 65-77: the first reads through the two track pointers, then the test of the scale.
  Reading through a null pointer brings the process down.
\<close>

definition Configure_timebase ::
  "('w, 'm) externals \<Rightarrow> MediaTrack option \<Rightarrow> MediaTrack option \<Rightarrow> AVFilterGraph \<Rightarrow> AVFilterInOut
     \<Rightarrow> AVFilterInOut \<Rightarrow> ('w, 'm) FilterResampler \<Rightarrow> bool outcome \<times> ('w, 'm) FilterResampler" where
  "Configure_timebase ext in_track out_track g ins outs s =
     (case in_track of
        None \<Rightarrow> (Aborts NullDereference, s)
      | Some it \<Rightarrow>
          (case out_track of
             None \<Rightarrow> (Aborts NullDereference, s)
           | Some ot \<Rightarrow>
               let input_timebase = TimebaseToAVRational (GetTimeBase it);
                   output_timebase = TimebaseToAVRational (GetTimeBase ot);
                   s1 = s\<lparr>scale := av_q2d (av_div_q input_timebase output_timebase)\<rparr>
               in if isnan (scale s1) then
                    (Returns False,
                     emit [Log LogError ''Invalid timebase: input: %d/%d, output: %d/%d''
                             [num input_timebase, den input_timebase,
                              num output_timebase, den output_timebase]] s1)
                  else Configure_filters ext it ot g ins outs s1))"

text \<open>
  Lines 47-63.  The only null test of Configure, at line 56, is on \<^verbatim>\<open>_filter_graph\<close>,
  \<^verbatim>\<open>_inputs\<close> and \<^verbatim>\<open>_outputs\<close>.
\<close>

definition alloc_failed :: "('w, 'm) FilterResampler \<Rightarrow> bool outcome \<times> ('w, 'm) FilterResampler" where
  "alloc_failed s =
     (Returns False,
      emit [Log LogError ''Could not allocate variables for filter graph: %p, %p, %p'' []] s)"

definition Configure ::
  "('w, 'm) externals \<Rightarrow> MediaTrack option \<Rightarrow> MediaTrack option \<Rightarrow> ('w, 'm) FilterResampler
     \<Rightarrow> bool outcome \<times> ('w, 'm) FilterResampler" where
  "Configure ext in_track out_track s =
     (let s1 = s\<lparr>input_track := in_track, output_track := out_track\<rparr>;
          (graph, w1) = avfilter_graph_alloc ext (libav s1);
          s2 = s1\<lparr>filter_graph := graph, libav := w1\<rparr>
      in case filter_graph s2 of
           None \<Rightarrow> alloc_failed s2
         | Some g \<Rightarrow>
             (case inputs s2 of
                None \<Rightarrow> alloc_failed s2
              | Some ins \<Rightarrow>
                  (case outputs s2 of
                     None \<Rightarrow> alloc_failed s2
                   | Some outs \<Rightarrow>
                       let g1 = g\<lparr>nb_threads := 1\<rparr>
                       in Configure_timebase ext in_track out_track g1 ins outs
                            (s2\<lparr>filter_graph := Some g1\<rparr>))))"

subsection \<open>Start, Stop, the destructor and SendBuffer\<close>

text \<open>
  Lines 151-171.  \<open>spawned\<close> tells whether the constructor of std::thread succeeded;
  when it throws, the catch block runs.  Assigning a new thread to \<^verbatim>\<open>_thread_work\<close>
  while it is joinable calls std::terminate.  The thread's first line (188) is logged
  with its start.
\<close>

definition Start :: "bool \<Rightarrow> ('w, 'm) FilterResampler \<Rightarrow> bool outcome \<times> ('w, 'm) FilterResampler" where
  "Start spawned s =
     (let s1 = s\<lparr>kill_flag := False\<rparr>
      in if \<not> spawned then
           (Returns False,
            emit [Log LogError ''Failed to start transcode resample filter thread.'' []]
              (s1\<lparr>kill_flag := True\<rparr>))
         else if joinable (thread_work s1) then (Aborts StdTerminate, s1)
         else
           (Returns True,
            emit [Log LogDebug ''Start resampler filter thread.'' []] (s1\<lparr>thread_work := Running\<rparr>)))"

text \<open>
  Lines 173-184.  The worker is between two iterations of its loop when another call
  runs, so the join finds the kill flag set at line 190 and the thread gone.
\<close>

definition Stop :: "('w, 'm) FilterResampler \<Rightarrow> ('w, 'm) FilterResampler" where
  "Stop s =
     (let s1 = s\<lparr>kill_flag := True\<rparr>;
          s2 = s1\<lparr>input_buffer := Queue_Stop (input_buffer s1)\<rparr>
      in if joinable (thread_work s2) then
           emit [Log LogDebug ''resampler filter thread has ended'' []] (s2\<lparr>thread_work := NotAThread\<rparr>)
         else s2)"

text \<open>
  Lines 31-43.  \<^verbatim>\<open>OV_SAFE_FUNC(p, nullptr, f, &)\<close> calls \<open>f\<close> on a pointer that is not
  null and resets it; of these calls the one of avfilter_graph_free is an event.  The
  frames still in the queue go with \<^verbatim>\<open>_input_buffer.Clear()\<close>; nothing is logged for
  them.
\<close>

definition destructor :: "('w, 'm) FilterResampler \<Rightarrow> ('w, 'm) FilterResampler" where
  "destructor s =
     (let s1 = Stop s;
          s2 = s1\<lparr>inputs := None, outputs := None\<rparr>;
          s3 = (case filter_graph s2 of
                  None \<Rightarrow> s2
                | Some g \<Rightarrow> emit [GraphFree (graph_id g)] (s2\<lparr>filter_graph := None\<rparr>));
          s4 = emit [Cleared (items (input_buffer s3))] (s3\<lparr>input_buffer := Clear (input_buffer s3)\<rparr>)
      in s4\<lparr>destroyed := True\<rparr>)"

text \<open>Lines 249-254.  The report of the queue when its depth is over the threshold is an event.\<close>

definition SendBuffer :: "'m \<Rightarrow> ('w, 'm) FilterResampler \<Rightarrow> int \<times> ('w, 'm) FilterResampler" where
  "SendBuffer buffer s =
     (let s1 = emit [Enqueued buffer] (s\<lparr>input_buffer := Enqueue buffer (input_buffer s)\<rparr>);
          s2 = (if over_threshold (input_buffer s1)
                then emit [QueueOverThreshold (Size (input_buffer s1))] s1 else s1)
      in (0, s2))"

subsection \<open>FilterThread (lines 186-247)\<close>

text \<open>
  One round of the inner loop, lines 214-244: the state after it, and whether the loop
  goes round again (\<^verbatim>\<open>continue\<close>, or the end of the body) or is left
  (\<^verbatim>\<open>break\<close>).
\<close>

definition FilterThread_receive ::
  "('w, 'm) externals \<Rightarrow> ('w, 'm) FilterResampler \<Rightarrow> bool \<times> ('w, 'm) FilterResampler" where
  "FilterThread_receive ext s =
     (case av_buffersink_get_frame ext (libav s) (buffersink_ctx s) (frame s) of
        ((ret, fr), w) \<Rightarrow>
          let s1 = emit [Receive ret fr] (s\<lparr>frame := fr, libav := w\<rparr>)
          in if ret = AVERROR_EAGAIN then (False, s1)
             else if ret = AVERROR_EOF then
               (False, emit [Log LogError ''Error receiving a packet for decoding : AVERROR_EOF'' []] s1)
             else if ret < 0 then
               (False, emit [Log LogError ''Error receiving a packet for decoding : %d'' [ret]] s1)
             else
               let output_frame = ToMediaFrame ext Audio (frame s1);
                   s2 = s1\<lparr>frame := av_frame_unref ext (frame s1)\<rparr>
               in (case output_frame of
                     None \<Rightarrow> (True, emit [Log LogError ''Could not allocate the frame data'' []] s2)
                   | Some m \<Rightarrow>
                       if complete_handler s2 then (True, emit [Deliver m] s2) else (True, s2)))"

text \<open>
  The inner loop, \<^verbatim>\<open>while (true)\<close> at line 212.  A sink that never runs dry keeps it
  going for ever: the result is \<open>None\<close> then.
\<close>

partial_function (option) FilterThread_drain ::
  "('w, 'm) externals \<Rightarrow> ('w, 'm) FilterResampler \<Rightarrow> ('w, 'm) FilterResampler option" where
  "FilterThread_drain ext s =
     (let (again, s') = FilterThread_receive ext s
      in if again then FilterThread_drain ext s' else Some s')"

declare FilterThread_drain.simps [code]

text \<open>
  How one pass through the body of the outer loop ends: at the loop's head again, out of
  the loop (the kill flag, or the \<^verbatim>\<open>break\<close> of line 202), or waiting in Dequeue.
\<close>

datatype loop_exit = Again | Leave | Wait

text \<open>
  One pass, lines 190-246.  The log line of a rejected feed (line 208) reads the fields
  of the member \<^verbatim>\<open>_frame\<close>.
\<close>

definition feed_error_line :: "('w, 'm) FilterResampler \<Rightarrow> 'm event" where
  "feed_error_line s =
     Log LogError
       ''An error occurred while feeding the audio filtergraph: pts: %lld, linesize: %d, srate: %d, layout: %d, channels: %d, format: %d, rq: %d''
       [pts (frame s), linesize0 (frame s), sample_rate (frame s), channel_layout (frame s),
        channels (frame s), format (frame s), int (Size (input_buffer s))]"

definition FilterThread_pass ::
  "('w, 'm) externals \<Rightarrow> ('w, 'm) FilterResampler \<Rightarrow> (loop_exit \<times> ('w, 'm) FilterResampler) option" where
  "FilterThread_pass ext s =
     (if kill_flag s then Some (Leave, s)
      else case Dequeue (input_buffer s) of
             Blocks \<Rightarrow> Some (Wait, s)
           | Nothing \<Rightarrow> Some (Again, s)
           | Item media_frame q \<Rightarrow>
               let s1 = emit [Dequeued media_frame] (s\<lparr>input_buffer := q\<rparr>)
               in (case ToAVFrame ext Video media_frame of
                     None \<Rightarrow>
                       Some (Leave, emit [Log LogError ''Could not allocate the frame data'' []] s1)
                   | Some av_frame \<Rightarrow>
                       (case av_buffersrc_add_frame_flags ext (libav s1) (buffersrc_ctx s1) av_frame of
                          (ret, w) \<Rightarrow>
                            let s2 = emit [Feed av_frame ret] (s1\<lparr>libav := w\<rparr>)
                            in if ret < 0 then Some (Again, emit [feed_error_line s2] s2)
                               else map_option (Pair Again) (FilterThread_drain ext s2))))"

subsection \<open>Executions\<close>

text \<open>
  The calls a user of the object can make, and a pass of the worker thread through its
  loop.  The queue is the only thing the threads share besides the kill flag, so a pass
  is taken as one step.
\<close>

datatype 'm action =
    CallConfigure "MediaTrack option" "MediaTrack option"
  | CallStart bool
  | CallStop
  | CallSendBuffer 'm
  | WorkerPass
  | Destroy

text \<open>
  One step.  There is no next state (\<open>None\<close>) after the destructor, when the process
  is brought down, when the worker takes a step without running, and when the worker
  never comes back from the inner loop.
\<close>

definition step ::
  "('w, 'm) externals \<Rightarrow> 'm action \<Rightarrow> ('w, 'm) FilterResampler \<Rightarrow> ('w, 'm) FilterResampler option" where
  "step ext a s =
     (if destroyed s then None
      else case a of
             CallConfigure it ot \<Rightarrow>
               (case Configure ext it ot s of
                  (Returns _, s') \<Rightarrow> Some s'
                | (Aborts _, _) \<Rightarrow> None)
           | CallStart spawned \<Rightarrow>
               (case Start spawned s of
                  (Returns _, s') \<Rightarrow> Some s'
                | (Aborts _, _) \<Rightarrow> None)
           | CallStop \<Rightarrow> Some (Stop s)
           | CallSendBuffer f \<Rightarrow> Some (snd (SendBuffer f s))
           | WorkerPass \<Rightarrow>
               (if thread_work s = Running then
                  (case FilterThread_pass ext s of
                     None \<Rightarrow> None
                   | Some (Leave, s') \<Rightarrow> Some (s'\<lparr>thread_work := Returned\<rparr>)
                   | Some (_, s') \<Rightarrow> Some s')
                else None)
           | Destroy \<Rightarrow> Some (destructor s))"

fun exec ::
  "('w, 'm) externals \<Rightarrow> 'm action list \<Rightarrow> ('w, 'm) FilterResampler \<Rightarrow> ('w, 'm) FilterResampler option" where
  "exec ext [] s = Some s"
| "exec ext (a # as) s = (case step ext a s of None \<Rightarrow> None | Some s' \<Rightarrow> exec ext as s')"

subsection \<open>A small engine for the examples\<close>

text \<open>
  An instance of the library to run the model on: a re-chunker.  A media frame is a pair
  of a timestamp and a number of samples, the engine's state the number of samples it
  holds and the timestamp of the next frame it puts out.  Feeding adds the samples of a
  frame and refuses a negative number of them; the sink gives frames of two samples while
  it holds that many and asks to try again otherwise.  The converter into the library's
  frame fails on a frame of more than a thousand samples.  An unreferenced frame has the
  defaults of libavutil: no timestamp (\<^verbatim>\<open>AV_NOPTS_VALUE\<close>), format \<open>- 1\<close>.
\<close>

record chunker =
  held :: int
  next_pts :: int

definition blank_frame :: AVFrame where
  "blank_frame =
     \<lparr>pts = - 9223372036854775808, linesize0 = 0, sample_rate = 0, channel_layout = 0,
      channels = 0, format = - 1\<rparr>"

definition blank_inout :: AVFilterInOut where
  "blank_inout = \<lparr>inout_name = None, filter_ctx = None, pad_idx = 0, inout_next = None\<rparr>"

definition chunker_feed :: "chunker \<Rightarrow> ptr option \<Rightarrow> AVFrame \<Rightarrow> int \<times> chunker" where
  "chunker_feed w c av =
     (if linesize0 av < 0 then (- 22, w) else (0, w\<lparr>held := held w + linesize0 av\<rparr>))"

definition chunker_get :: "chunker \<Rightarrow> ptr option \<Rightarrow> AVFrame \<Rightarrow> (int \<times> AVFrame) \<times> chunker" where
  "chunker_get w c fr =
     (if 2 \<le> held w then
        ((0, fr\<lparr>pts := next_pts w, linesize0 := 2\<rparr>),
         w\<lparr>held := held w - 2, next_pts := next_pts w + 2\<rparr>)
      else ((AVERROR_EAGAIN, fr), w))"

definition chunker_to_av :: "MediaType \<Rightarrow> int \<times> int \<Rightarrow> AVFrame option" where
  "chunker_to_av t m =
     (if 1000 < snd m then None else Some (blank_frame\<lparr>pts := fst m, linesize0 := snd m\<rparr>))"

definition chunker_ext :: "(chunker, int \<times> int) externals" where
  "chunker_ext =
     \<lparr>av_frame_alloc = (\<lambda>w. (blank_frame, w)),
      avfilter_inout_alloc = (\<lambda>w. (Some blank_inout, w)),
      avfilter_graph_alloc = (\<lambda>w. (Some \<lparr>graph_id = 7, nb_threads = 0\<rparr>, w)),
      avfilter_graph_create_filter = (\<lambda>w f n a g. ((0, Some 1), w)),
      av_strdup = (\<lambda>w x. (Some x, w)),
      avfilter_graph_parse_ptr = (\<lambda>w g f i o'. ((0, None, None), w)),
      avfilter_graph_config = (\<lambda>w g. (0, w)),
      av_buffersrc_add_frame_flags = chunker_feed,
      av_buffersink_get_frame = chunker_get,
      av_frame_unref = (\<lambda>fr. blank_frame),
      ToAVFrame = chunker_to_av,
      ToMediaFrame = (\<lambda>t fr. Some (pts fr, linesize0 fr))\<rparr>"

definition chunker0 :: chunker where
  "chunker0 = \<lparr>held = 0, next_pts = 0\<rparr>"

definition track :: "int \<Rightarrow> int \<Rightarrow> int \<Rightarrow> MediaTrack" where
  "track n d rate =
     \<lparr>GetId = 0, GetTimeBase = \<lparr>GetNum = n, GetDen = d\<rparr>, GetSampleRate = rate,
      GetSampleName = ''s16'', GetChannelName = ''stereo'', GetAudioSamplesPerFrame = 2\<rparr>"

text \<open>A fresh object with a handler, and the same configured and started.\<close>

definition fresh :: "(chunker, int \<times> int) FilterResampler" where
  "fresh = FilterResampler_new chunker_ext True chunker0"

definition configured :: "(chunker, int \<times> int) FilterResampler" where
  "configured =
     snd (Configure chunker_ext (Some (track 1 44100 44100)) (Some (track 1 48000 48000)) fresh)"

definition started :: "(chunker, int \<times> int) FilterResampler" where
  "started = snd (Start True configured)"

definition bring_up :: "(int \<times> int) action list" where
  "bring_up = [CallConfigure (Some (track 1 44100 44100)) (Some (track 1 48000 48000)), CallStart True]"

subsection \<open>Reading a trace\<close>

fun enq_of :: "'m event \<Rightarrow> 'm list" where
  "enq_of (Enqueued f) = [f]"
| "enq_of _ = []"

fun deq_of :: "'m event \<Rightarrow> 'm list" where
  "deq_of (Dequeued f) = [f]"
| "deq_of _ = []"

fun clr_of :: "'m event \<Rightarrow> 'm list" where
  "clr_of (Cleared fs) = fs"
| "clr_of _ = []"

text \<open>The frames handed to SendBuffer, taken by the worker, and thrown away by Clear, in order.\<close>

definition enqueued :: "'m event list \<Rightarrow> 'm list" where
  "enqueued tr = concat (map enq_of tr)"

definition dequeued :: "'m event list \<Rightarrow> 'm list" where
  "dequeued tr = concat (map deq_of tr)"

definition cleared :: "'m event list \<Rightarrow> 'm list" where
  "cleared tr = concat (map clr_of tr)"

text \<open>The events of the worker's work on frames, and the calls of avfilter_graph_free.\<close>

fun is_work :: "'m event \<Rightarrow> bool" where
  "is_work (Dequeued _) = True"
| "is_work (Feed _ _) = True"
| "is_work (Receive _ _) = True"
| "is_work (Deliver _) = True"
| "is_work _ = False"

fun is_free :: "'m event \<Rightarrow> bool" where
  "is_free (GraphFree _) = True"
| "is_free _ = False"

fun is_error :: "'m event \<Rightarrow> bool" where
  "is_error (Log LogError _ _) = True"
| "is_error _ = False"

text \<open>The fresh object with 150 frames waiting, half as many again as the threshold.\<close>

definition deep :: "(chunker, int \<times> int) FilterResampler" where
  "deep = fresh\<lparr>input_buffer := (input_buffer fresh)\<lparr>items := replicate 150 (0, 2)\<rparr>\<rparr>"

subsection \<open>The inner loop in the words of its contract\<close>

text \<open>
  What the inner loop is to do with the answers of the sink, given as the list of the
  codes and frames that av_buffersink_get_frame returned: every answer is a request, a
  frame that was produced and converted goes to the handler if one is registered, one that
  could not be converted is logged, and the codes end-of-stream and hard error are logged.
\<close>

definition stop_lines :: "int \<Rightarrow> 'm event list" where
  "stop_lines r =
     (if r = AVERROR_EAGAIN then []
      else if r = AVERROR_EOF then
        [Log LogError ''Error receiving a packet for decoding : AVERROR_EOF'' []]
      else [Log LogError ''Error receiving a packet for decoding : %d'' [r]])"

fun drain_events :: "bool \<Rightarrow> (AVFrame \<Rightarrow> 'm option) \<Rightarrow> (int \<times> AVFrame) list \<Rightarrow> 'm event list" where
  "drain_events h conv [] = []"
| "drain_events h conv ((r, fr) # rs) =
     Receive r fr #
     (if r < 0 then stop_lines r
      else case conv fr of
             None \<Rightarrow> [Log LogError ''Could not allocate the frame data'' []]
           | Some m \<Rightarrow> if h then [Deliver m] else [])
     @ drain_events h conv rs"

text \<open>
  The answers are those of a sink that is drained to exhaustion: frames (codes that are
  not negative) up to the last answer, which is a negative code.
\<close>

definition exhausted :: "(int \<times> AVFrame) list \<Rightarrow> bool" where
  "exhausted rs = (rs \<noteq> [] \<and> list_all (\<lambda>x. 0 \<le> fst x) (butlast rs) \<and> fst (last rs) < 0)"



text \<open>What a pass that took a frame has added to the trace behind the event of taking it.\<close>

definition pass_events ::
  "('w, 'm) externals \<Rightarrow> bool \<Rightarrow> 'm \<Rightarrow> loop_exit \<Rightarrow> 'm event list \<Rightarrow> bool" where
  "pass_events ext h f c evs =
     (case ToAVFrame ext Video f of
        None \<Rightarrow> c = Leave \<and> evs = [Log LogError ''Could not allocate the frame data'' []]
      | Some av \<Rightarrow>
          c = Again \<and>
          (\<exists>r. (r < 0 \<and> (\<exists>l. is_error l \<and> evs = [Feed av r, l]))
             \<or> (0 \<le> r \<and> (\<exists>rs. exhausted rs
                   \<and> evs = Feed av r # drain_events h (ToMediaFrame ext Audio) rs))))"

text \<open>The log lines among the events.\<close>

fun is_log :: "'m event \<Rightarrow> bool" where
  "is_log (Log _ _ _) = True"
| "is_log _ = False"

subsection \<open>Accounting for the frames taken\<close>




subsection \<open>The input frame of a delivered frame\<close>

text \<open>
  The frames handed to the completion handler, in the order of the calls, each with the
  number of frames the worker had taken out of the queue when it was handed over: frame
  \<open>(k, m)\<close> was delivered while the worker was busy with the \<open>k\<close>-th frame it took.
\<close>

fun deliveries :: "nat \<Rightarrow> 'm event list \<Rightarrow> (nat \<times> 'm) list" where
  "deliveries k [] = []"
| "deliveries k (Dequeued f # es) = deliveries (Suc k) es"
| "deliveries k (Deliver m # es) = (k, m) # deliveries k es"
| "deliveries k (e # es) = deliveries k es"

subsection \<open>Invariants of an execution\<close>

text \<open>Every frame handed over is taken by the worker, waiting in the queue or cleared.\<close>

definition conserved :: "('w, 'm) FilterResampler \<Rightarrow> bool" where
  "conserved s =
     (enqueued (trace s) = dequeued (trace s) @ cleared (trace s) @ items (input_buffer s)
      \<and> (destroyed s \<or> cleared (trace s) = []))"

text \<open>
  No worker is at work and none will be: the thread has left FilterThread and was not
  joined, or the queue is stopped.
\<close>

definition halted :: "('w, 'm) FilterResampler \<Rightarrow> bool" where
  "halted s = (thread_work s = Returned \<or> stopped (input_buffer s))"

text \<open>The frames that the calls of SendBuffer in a list of actions hand over.\<close>

fun sent :: "'m action list \<Rightarrow> 'm list" where
  "sent [] = []"
| "sent (CallSendBuffer f # as) = f # sent as"
| "sent (a # as) = sent as"

text \<open>What the examples read off a final state: the frames handed over, taken and cleared, and the error lines.\<close>

definition ledger ::
  "('w, 'm) FilterResampler \<Rightarrow> 'm list \<times> 'm list \<times> 'm list \<times> 'm event list" where
  "ledger s = (enqueued (trace s), dequeued (trace s), cleared (trace s), filter is_error (trace s))"

subsection \<open>Runs of the examples\<close>


text \<open>Three frames of five, one and two samples, and three passes of the worker.\<close>

definition run_three :: "(int \<times> int) action list" where
  "run_three =
     bring_up @ [CallSendBuffer (10, 5), CallSendBuffer (20, 1), CallSendBuffer (30, 2),
              WorkerPass, WorkerPass, WorkerPass]"

text \<open>The started object with a frame in the queue that the converter refuses.\<close>

definition with_bad_frame :: "(chunker, int \<times> int) FilterResampler" where
  "with_bad_frame = snd (SendBuffer (40, 2000) started)"

text \<open>What a user may try after the worker has gone: more frames, a stop, a new start.\<close>

definition revive :: "(int \<times> int) action list" where
  "revive = [CallSendBuffer (50, 2), CallStop, CallStart True, WorkerPass, CallSendBuffer (60, 2), WorkerPass]"

text \<open>The started object with one frame in the queue.\<close>

definition holding :: "int \<times> int \<Rightarrow> (chunker, int \<times> int) FilterResampler" where
  "holding m = snd (SendBuffer m started)"

text \<open>Calls after a stop: frames are handed over, the thread is started again and runs.\<close>

definition after_stop :: "(int \<times> int) action list" where
  "after_stop =
     [CallSendBuffer (50, 2), CallStart True, WorkerPass, CallSendBuffer (60, 2), WorkerPass]"



subsection \<open>The filter contexts Configure stores\<close>





subsection \<open>The turns of the input frames\<close>

text \<open>
  A second reader of the trace, for the order of the worker's work.  The worker is at the
  head of its loop (\<open>Idle\<close>), holds a frame it has taken, has been turned away by the
  pipeline, is draining the sink, has a converted frame to hand to the handler, has a
  frame that could not be converted, or has got the end of stream or a hard error.
  Only at the head of the loop may a frame be taken; a frame may be requested from the
  sink only after a feed that succeeded and before the sink has answered with a
  negative code; a frame the sink gave and ToMediaFrame converted has to be handed to
  the registered handler, that frame and no other, before anything else happens.
  \<open>h\<close> tells whether a handler is registered, \<open>conv\<close> is the converter.
\<close>

datatype 'm phase =
  Idle | Holding | Turned | Draining | Handing 'm | Unconverted | Ending | Broken

fun order_step :: "bool \<Rightarrow> (AVFrame \<Rightarrow> 'm option) \<Rightarrow> 'm phase \<Rightarrow> 'm event \<Rightarrow> 'm phase" where
  "order_step h conv Broken e = Broken"
| "order_step h conv Idle (Dequeued f) = Holding"
| "order_step h conv Idle (Feed av r) = Broken"
| "order_step h conv Idle (Receive r fr) = Broken"
| "order_step h conv Idle (Deliver m) = Broken"
| "order_step h conv Idle e = Idle"
| "order_step h conv Holding (Feed av r) = (if r < 0 then Turned else Draining)"
| "order_step h conv Holding (Log LogError msg args) = Idle"
| "order_step h conv Holding e = Broken"
| "order_step h conv Turned (Log LogError msg args) = Idle"
| "order_step h conv Turned e = Broken"
| "order_step h conv Draining (Receive r fr) =
     (if r < 0 then (if r = AVERROR_EAGAIN then Idle else Ending)
      else case conv fr of
             None \<Rightarrow> Unconverted
           | Some m \<Rightarrow> if h then Handing m else Draining)"
| "order_step h conv Draining e = Broken"
| "order_step h conv (Handing m) (Deliver m') = (if m' = m then Draining else Broken)"
| "order_step h conv (Handing m) e = Broken"
| "order_step h conv Unconverted (Log LogError msg args) = Draining"
| "order_step h conv Unconverted e = Broken"
| "order_step h conv Ending (Log LogError msg args) = Idle"
| "order_step h conv Ending e = Broken"

definition drained_in_turn :: "bool \<Rightarrow> (AVFrame \<Rightarrow> 'm option) \<Rightarrow> 'm event list \<Rightarrow> bool" where
  "drained_in_turn h conv tr = (foldl (order_step h conv) Idle tr = Idle)"

text \<open>
  The frames the sink has given and ToMediaFrame has converted, in the order of the
  requests, each with the input frame it belongs to: the last frame that was fed with
  success before the request, as the number \<open>j\<close> it had among the frames taken (\<open>k\<close>
  counts the frames taken so far).
\<close>

fun produced :: "(AVFrame \<Rightarrow> 'm option) \<Rightarrow> nat \<Rightarrow> nat \<Rightarrow> 'm event list \<Rightarrow> (nat \<times> 'm) list" where
  "produced conv k j [] = []"
| "produced conv k j (Dequeued f # es) = produced conv (Suc k) j es"
| "produced conv k j (Feed av r # es) = produced conv k (if 0 \<le> r then k else j) es"
| "produced conv k j (Receive r fr # es) =
     (if 0 \<le> r then (case conv fr of None \<Rightarrow> [] | Some m \<Rightarrow> [(j, m)]) else [])
     @ produced conv k j es"
| "produced conv k j (e # es) = produced conv k j es"

text \<open>A trace in which the second frame taken is served before the first.\<close>

definition swapped :: "(int \<times> int) event list" where
  "swapped = [Dequeued (10, 2), Dequeued (20, 2), Deliver (2, 2), Deliver (0, 2)]"

text \<open>A trace in which the second frame is taken while the sink still has frames to give.\<close>

definition undrained :: "(int \<times> int) event list" where
  "undrained =
     [Dequeued (10, 5), Feed (blank_frame\<lparr>pts := 10, linesize0 := 5\<rparr>) 0,
      Receive 0 (blank_frame\<lparr>pts := 0, linesize0 := 2\<rparr>), Deliver (0, 2),
      Dequeued (20, 1)]"

section \<open>Properties\<close>

subsection \<open>The inner loop\<close>

lemma AVERROR_negative: "AVERROR_EAGAIN < 0" "AVERROR_EOF < 0"
  by (simp_all add: AVERROR_EAGAIN_def AVERROR_EOF_def)

lemma receive_effect:
  assumes "av_buffersink_get_frame ext (libav s) (buffersink_ctx s) (frame s) = ((ret, fr), w)"
  shows "fst (FilterThread_receive ext s) = (0 \<le> ret)"
    and "trace (snd (FilterThread_receive ext s))
           = trace s @ drain_events (complete_handler s) (ToMediaFrame ext Audio) [(ret, fr)]"
    and "libav (snd (FilterThread_receive ext s)) = w"
  using assms AVERROR_negative
  by (auto simp: FilterThread_receive_def Let_def emit_def stop_lines_def split: option.splits)

lemma receive_keeps:
  "complete_handler (snd (FilterThread_receive ext s)) = complete_handler s"
  "input_buffer (snd (FilterThread_receive ext s)) = input_buffer s"
  "thread_work (snd (FilterThread_receive ext s)) = thread_work s"
  "kill_flag (snd (FilterThread_receive ext s)) = kill_flag s"
  "destroyed (snd (FilterThread_receive ext s)) = destroyed s"
  "filter_graph (snd (FilterThread_receive ext s)) = filter_graph s"
  "buffersink_ctx (snd (FilterThread_receive ext s)) = buffersink_ctx s"
  by (auto simp: FilterThread_receive_def Let_def emit_def split: prod.splits option.splits)

lemma receive_events:
  "\<exists>r fr. fst (FilterThread_receive ext s) = (0 \<le> r)
     \<and> trace (snd (FilterThread_receive ext s))
         = trace s @ drain_events (complete_handler s) (ToMediaFrame ext Audio) [(r, fr)]"
proof -
  obtain ret fr w where
    "av_buffersink_get_frame ext (libav s) (buffersink_ctx s) (frame s) = ((ret, fr), w)"
    by (metis surj_pair)
  from receive_effect(1,2) [OF this] show ?thesis by blast
qed

lemma drain_events_append:
  "drain_events h conv (xs @ ys) = drain_events h conv xs @ drain_events h conv ys"
  by (induction xs) auto

lemma exhausted_Cons:
  "0 \<le> fst x \<Longrightarrow> exhausted rs \<Longrightarrow> exhausted (x # rs)"
  by (auto simp: exhausted_def)

lemma exhausted_single: "fst x < 0 \<Longrightarrow> exhausted [x]"
  by (simp add: exhausted_def)

lemma drain_shape:
  "FilterThread_drain ext s = Some s' \<Longrightarrow>
     \<exists>rs. exhausted rs
       \<and> trace s' = trace s @ drain_events (complete_handler s) (ToMediaFrame ext Audio) rs"
proof (induction rule: FilterThread_drain.raw_induct [rotated 1, consumes 1])
  case (1 drain ext s s')
  obtain r fr where r: "fst (FilterThread_receive ext s) = (0 \<le> r)"
    and tr: "trace (snd (FilterThread_receive ext s))
         = trace s @ drain_events (complete_handler s) (ToMediaFrame ext Audio) [(r, fr)]"
    using receive_events by blast
  show ?case
  proof (cases "0 \<le> r")
    case True
    with r 1(2) have "drain ext (snd (FilterThread_receive ext s)) = Some s'"
      by (simp add: case_prod_unfold)
    from 1(1) [OF this] obtain rs where rs: "exhausted rs"
      "trace s' = trace (snd (FilterThread_receive ext s))
          @ drain_events (complete_handler (snd (FilterThread_receive ext s))) (ToMediaFrame ext Audio) rs"
      by blast
    have "exhausted ((r, fr) # rs)"
      using True rs(1) by (simp add: exhausted_Cons)
    moreover have "trace s' = trace s @ drain_events (complete_handler s) (ToMediaFrame ext Audio) ((r, fr) # rs)"
      using rs(2) tr by (simp add: receive_keeps)
    ultimately show ?thesis by blast
  next
    case False
    with r 1(2) have "s' = snd (FilterThread_receive ext s)"
      by (simp add: case_prod_unfold)
    moreover have "exhausted [(r, fr)]"
      using False by (simp add: exhausted_single)
    ultimately show ?thesis
      using tr by blast
  qed
qed



lemma drain_keeps:
  "FilterThread_drain ext s = Some s' \<Longrightarrow>
     complete_handler s' = complete_handler s \<and> input_buffer s' = input_buffer s
     \<and> thread_work s' = thread_work s \<and> kill_flag s' = kill_flag s
     \<and> destroyed s' = destroyed s \<and> filter_graph s' = filter_graph s"
proof (induction rule: FilterThread_drain.raw_induct [rotated 1, consumes 1])
  case (1 drain ext s s')
  show ?case
  proof (cases "fst (FilterThread_receive ext s)")
    case True
    with 1(2) have "drain ext (snd (FilterThread_receive ext s)) = Some s'"
      by (simp add: case_prod_unfold)
    from 1(1) [OF this] show ?thesis
      by (simp add: receive_keeps)
  next
    case False
    with 1(2) have "s' = snd (FilterThread_receive ext s)"
      by (simp add: case_prod_unfold)
    then show ?thesis
      by (simp add: receive_keeps)
  qed
qed

subsection \<open>A pass of the outer loop\<close>

lemma Dequeue_Item:
  "Dequeue q = Item f q' \<Longrightarrow> \<not> stopped q \<and> items q = f # items q' \<and> q' = q\<lparr>items := items q'\<rparr>"
  by (auto simp: Dequeue_def split: if_splits list.splits)

lemma Dequeue_Nothing: "(Dequeue q = Nothing) = stopped q"
  by (auto simp: Dequeue_def split: if_splits list.splits)

lemma Dequeue_stopped: "stopped q \<Longrightarrow> Dequeue q = Nothing"
  by (simp add: Dequeue_def)

lemma pass_idle:
  assumes "FilterThread_pass ext s = Some (c, s')"
    and "kill_flag s \<or> Dequeue (input_buffer s) = Blocks \<or> Dequeue (input_buffer s) = Nothing"
  shows "s' = s"
  using assms by (auto simp: FilterThread_pass_def split: if_splits)

lemma pass_took:
  assumes p: "FilterThread_pass ext s = Some (c, s')"
    and k: "\<not> kill_flag s" and d: "Dequeue (input_buffer s) = Item f q"
  shows "\<exists>evs. trace s' = trace s @ Dequeued f # evs \<and> pass_events ext (complete_handler s) f c evs"
    and "input_buffer s' = q" and "thread_work s' = thread_work s" and "kill_flag s' = kill_flag s"
    and "destroyed s' = destroyed s" and "filter_graph s' = filter_graph s"
proof -
  let ?s1 = "emit [Dequeued f] (s\<lparr>input_buffer := q\<rparr>)"
  show "\<exists>evs. trace s' = trace s @ Dequeued f # evs \<and> pass_events ext (complete_handler s) f c evs"
  proof (cases "ToAVFrame ext Video f")
    case None
    with p k d show ?thesis
      by (auto simp: FilterThread_pass_def pass_events_def emit_def Let_def)
  next
    case (Some av)
    obtain r w where feed: "av_buffersrc_add_frame_flags ext (libav ?s1) (buffersrc_ctx ?s1) av = (r, w)"
      by (metis surj_pair)
    let ?s2 = "emit [Feed av r] (?s1\<lparr>libav := w\<rparr>)"
    show ?thesis
    proof (cases "r < 0")
      case True
      with p k d Some feed have "c = Again" "trace s' = trace s @ [Dequeued f, Feed av r, feed_error_line ?s2]"
        by (auto simp: FilterThread_pass_def emit_def Let_def)
      moreover have "is_error (feed_error_line ?s2)"
        by (simp add: feed_error_line_def)
      ultimately have "trace s' = trace s @ Dequeued f # [Feed av r, feed_error_line ?s2]
          \<and> pass_events ext (complete_handler s) f c [Feed av r, feed_error_line ?s2]"
        unfolding pass_events_def using Some True
        by (simp del: ex_simps) (rule exI [of _ r], auto)
      then show ?thesis by blast
    next
      case False
      with p k d Some feed have c: "c = Again" and dr: "FilterThread_drain ext ?s2 = Some s'"
        by (auto simp: FilterThread_pass_def Let_def)
      from drain_shape [OF dr] obtain rs where "exhausted rs"
        "trace s' = trace ?s2 @ drain_events (complete_handler ?s2) (ToMediaFrame ext Audio) rs"
        by blast
      then have "exhausted rs \<and> trace s' = trace s @ Dequeued f # Feed av r
                     # drain_events (complete_handler s) (ToMediaFrame ext Audio) rs"
        by (simp add: emit_def)
      then have "trace s' = trace s @ Dequeued f # Feed av r
                     # drain_events (complete_handler s) (ToMediaFrame ext Audio) rs
          \<and> pass_events ext (complete_handler s) f c
               (Feed av r # drain_events (complete_handler s) (ToMediaFrame ext Audio) rs)"
        unfolding pass_events_def using Some False c
        by (simp del: ex_simps) (rule exI [of _ r], auto)
      then show ?thesis by blast
    qed
  qed
  show "input_buffer s' = q" "thread_work s' = thread_work s" "kill_flag s' = kill_flag s"
    "destroyed s' = destroyed s" "filter_graph s' = filter_graph s"
    using p k d
    by (auto simp: FilterThread_pass_def emit_def Let_def
             split: option.splits prod.splits if_splits dest!: drain_keeps)
qed

subsection \<open>What the calls leave alone\<close>

lemma quiet_projections:
  "list_all is_log ls \<Longrightarrow> enqueued ls = [] \<and> dequeued ls = [] \<and> cleared ls = []
     \<and> filter is_work ls = [] \<and> filter is_free ls = []"
proof (induction ls)
  case Nil
  then show ?case by (simp add: enqueued_def dequeued_def cleared_def)
next
  case (Cons e ls)
  then show ?case by (cases e) (simp_all add: enqueued_def dequeued_def cleared_def)
qed

lemma Configure_filters_footprint:
  assumes "Configure_filters ext it ot g ins outs s = (r, s')"
  shows "input_buffer s' = input_buffer s \<and> thread_work s' = thread_work s
     \<and> kill_flag s' = kill_flag s \<and> destroyed s' = destroyed s
     \<and> complete_handler s' = complete_handler s \<and> filter_graph s' = filter_graph s
     \<and> (\<exists>ls. trace s' = trace s @ ls \<and> list_all is_log ls)"
  using assms
  by (auto simp: Configure_filters_def Let_def emit_def split: prod.splits if_splits)

lemma Configure_timebase_footprint:
  assumes "Configure_timebase ext it ot g ins outs s = (r, s')"
  shows "input_buffer s' = input_buffer s \<and> thread_work s' = thread_work s
     \<and> kill_flag s' = kill_flag s \<and> destroyed s' = destroyed s
     \<and> complete_handler s' = complete_handler s \<and> filter_graph s' = filter_graph s
     \<and> (\<exists>ls. trace s' = trace s @ ls \<and> list_all is_log ls)"
proof (cases it)
  case None
  with assms show ?thesis by (simp add: Configure_timebase_def)
next
  case it: (Some i)
  show ?thesis
  proof (cases ot)
    case None
    with it assms show ?thesis by (simp add: Configure_timebase_def)
  next
    case (Some outp)
    show ?thesis
    proof (cases "isnan (av_q2d (av_div_q (TimebaseToAVRational (GetTimeBase i)) (TimebaseToAVRational (GetTimeBase outp))))")
      case True
      with it Some assms show ?thesis
        by (auto simp: Configure_timebase_def Let_def emit_def)
    next
      case False
      with it Some assms have "Configure_filters ext i outp g ins outs
          (s\<lparr>scale := av_q2d (av_div_q (TimebaseToAVRational (GetTimeBase i)) (TimebaseToAVRational (GetTimeBase outp)))\<rparr>) = (r, s')"
        by (simp add: Configure_timebase_def Let_def)
      from Configure_filters_footprint [OF this] show ?thesis by simp
    qed
  qed
qed

lemma Configure_footprint:
  assumes "Configure ext it ot s = (r, s')"
  shows "input_buffer s' = input_buffer s \<and> thread_work s' = thread_work s
     \<and> kill_flag s' = kill_flag s \<and> destroyed s' = destroyed s
     \<and> complete_handler s' = complete_handler s
     \<and> (\<exists>ls. trace s' = trace s @ ls \<and> list_all is_log ls)"
proof -
  obtain graph w1 where al: "avfilter_graph_alloc ext (libav s) = (graph, w1)"
    by (metis surj_pair)
  let ?s2 = "s\<lparr>input_track := it, output_track := ot, filter_graph := graph, libav := w1\<rparr>"
  show ?thesis
  proof (cases "graph = None \<or> inputs s = None \<or> outputs s = None")
    case True
    with assms al show ?thesis
      by (auto simp: Configure_def Let_def alloc_failed_def emit_def split: option.splits)
  next
    case False
    then obtain g i outp where "graph = Some g" "inputs s = Some i" "outputs s = Some outp"
      by auto
    with assms al have "Configure_timebase ext it ot (g\<lparr>nb_threads := 1\<rparr>) i outp
        (?s2\<lparr>filter_graph := Some (g\<lparr>nb_threads := 1\<rparr>)\<rparr>) = (r, s')"
      by (simp add: Configure_def Let_def)
    from Configure_timebase_footprint [OF this] show ?thesis by simp
  qed
qed

lemma projections_append [simp]:
  "enqueued (xs @ ys) = enqueued xs @ enqueued ys"
  "dequeued (xs @ ys) = dequeued xs @ dequeued ys"
  "cleared (xs @ ys) = cleared xs @ cleared ys"
  by (simp_all add: enqueued_def dequeued_def cleared_def)

lemma projections_Nil [simp]: "enqueued [] = []" "dequeued [] = []" "cleared [] = []"
  by (simp_all add: enqueued_def dequeued_def cleared_def)

lemma projections_Cons [simp]:
  "enqueued (e # es) = enq_of e @ enqueued es"
  "dequeued (e # es) = deq_of e @ dequeued es"
  "cleared (e # es) = clr_of e @ cleared es"
  by (simp_all add: enqueued_def dequeued_def cleared_def)

lemma drain_events_projections:
  "enqueued (drain_events h conv rs) = [] \<and> dequeued (drain_events h conv rs) = []
     \<and> cleared (drain_events h conv rs) = [] \<and> filter is_free (drain_events h conv rs) = []"
  by (induction rs) (auto simp: stop_lines_def split: option.splits)

lemma pass_events_projections:
  assumes "pass_events ext h f c evs"
  shows "enqueued evs = [] \<and> dequeued evs = [] \<and> cleared evs = [] \<and> filter is_free evs = []"
proof (cases "ToAVFrame ext Video f")
  case None
  with assms show ?thesis by (simp add: pass_events_def)
next
  case (Some av)
  with assms consider
      (refused) r l where "evs = [Feed av r, l]" "is_error l"
    | (fed) r rs where "evs = Feed av r # drain_events h (ToMediaFrame ext Audio) rs"
    by (auto simp: pass_events_def)
  then show ?thesis
  proof cases
    case refused
    then show ?thesis by (cases l) simp_all
  next
    case fed
    then show ?thesis by (simp add: drain_events_projections)
  qed
qed

lemma Start_footprint:
  assumes "Start spawned s = (Returns b, s')"
  shows "input_buffer s' = input_buffer s \<and> destroyed s' = destroyed s
     \<and> complete_handler s' = complete_handler s
     \<and> (thread_work s' = thread_work s \<or> (\<not> joinable (thread_work s) \<and> thread_work s' = Running))
     \<and> (\<exists>ls. trace s' = trace s @ ls \<and> list_all is_log ls)"
  using assms by (auto simp: Start_def Let_def emit_def split: if_splits)

lemma Stop_footprint:
  "input_buffer (Stop s) = Queue_Stop (input_buffer s) \<and> destroyed (Stop s) = destroyed s
     \<and> complete_handler (Stop s) = complete_handler s \<and> thread_work (Stop s) = NotAThread
     \<and> kill_flag (Stop s) \<and> filter_graph (Stop s) = filter_graph s
     \<and> (\<exists>ls. trace (Stop s) = trace s @ ls \<and> list_all is_log ls)"
  by (cases "thread_work s") (auto simp: Stop_def Let_def emit_def)

lemma SendBuffer_footprint:
  "input_buffer (snd (SendBuffer f s)) = Enqueue f (input_buffer s)
     \<and> destroyed (snd (SendBuffer f s)) = destroyed s
     \<and> complete_handler (snd (SendBuffer f s)) = complete_handler s
     \<and> thread_work (snd (SendBuffer f s)) = thread_work s
     \<and> (\<exists>ls. trace (snd (SendBuffer f s)) = trace s @ Enqueued f # ls
            \<and> (ls = [] \<or> (\<exists>n. ls = [QueueOverThreshold n])))"
  by (auto simp: SendBuffer_def Let_def emit_def)

lemma destructor_footprint:
  "destroyed (destructor s) \<and> items (input_buffer (destructor s)) = []
     \<and> stopped (input_buffer (destructor s)) \<and> filter_graph (destructor s) = None
     \<and> thread_work (destructor s) = NotAThread
     \<and> (\<exists>ls fr. trace (destructor s) = trace s @ ls @ fr @ [Cleared (items (input_buffer s))]
            \<and> list_all is_log ls
            \<and> fr = (case filter_graph s of None \<Rightarrow> [] | Some g \<Rightarrow> [GraphFree (graph_id g)]))"
proof -
  obtain ls where ls: "trace (Stop s) = trace s @ ls" "list_all is_log ls"
    using Stop_footprint by blast
  show ?thesis
    using ls Stop_footprint [of s]
    by (cases "filter_graph s") (auto simp: destructor_def Let_def emit_def Clear_def Queue_Stop_def)
qed

subsection \<open>Executions\<close>

text \<open>The steps of an execution, by what they add to the trace.\<close>

lemma step_effect:
  assumes st: "step ext a s = Some s'"
  obtains
    (quiet) ls where "trace s' = trace s @ ls" "list_all is_log ls"
      "items (input_buffer s') = items (input_buffer s)" "\<not> destroyed s'"
  | (send) f ls where "trace s' = trace s @ Enqueued f # ls"
      "ls = [] \<or> (\<exists>n. ls = [QueueOverThreshold n])"
      "items (input_buffer s') = items (input_buffer s) @ [f]" "\<not> destroyed s'"
  | (took) f c evs where "trace s' = trace s @ Dequeued f # evs"
      "pass_events ext (complete_handler s) f c evs"
      "items (input_buffer s) = f # items (input_buffer s')" "\<not> destroyed s'"
      "thread_work s = Running" "\<not> stopped (input_buffer s)"
  | (destroy) ls fr where "trace s' = trace s @ ls @ fr @ [Cleared (items (input_buffer s))]"
      "list_all is_log ls" "list_all is_free fr" "items (input_buffer s') = []" "destroyed s'"
proof -
  from st have live: "\<not> destroyed s"
    by (auto simp: step_def split: if_splits)
  show thesis
  proof (cases a)
    case (CallConfigure it ot)
    with st live obtain b where "Configure ext it ot s = (Returns b, s')"
      by (auto simp: step_def split: prod.splits outcome.splits)
    from Configure_footprint [OF this] live show thesis
      by (auto intro: quiet)
  next
    case (CallStart spawned)
    with st live obtain b where "Start spawned s = (Returns b, s')"
      by (auto simp: step_def split: prod.splits outcome.splits)
    from Start_footprint [OF this] live show thesis
      by (auto intro: quiet)
  next
    case CallStop
    with st live have "s' = Stop s"
      by (simp add: step_def)
    with Stop_footprint [of s] live show thesis
      by (auto simp: Queue_Stop_def intro: quiet)
  next
    case (CallSendBuffer f)
    with st live have "s' = snd (SendBuffer f s)"
      by (simp add: step_def)
    with SendBuffer_footprint [of f s] live show thesis
      by (auto simp: Enqueue_def intro: send)
  next
    case WorkerPass
    with st live obtain c s1 where run: "thread_work s = Running"
      and p: "FilterThread_pass ext s = Some (c, s1)"
      and s': "s' = (if c = Leave then s1\<lparr>thread_work := Returned\<rparr> else s1)"
      by (auto simp: step_def split: if_splits option.splits prod.splits loop_exit.splits)
    show thesis
    proof (cases "kill_flag s \<or> Dequeue (input_buffer s) = Blocks \<or> Dequeue (input_buffer s) = Nothing")
      case True
      from pass_idle [OF p True] s' live have "trace s' = trace s @ []" "list_all is_log []"
        "items (input_buffer s') = items (input_buffer s)" "\<not> destroyed s'"
        by auto
      then show thesis by (rule quiet)
    next
      case False
      then obtain f q where k: "\<not> kill_flag s" and d: "Dequeue (input_buffer s) = Item f q"
        by (cases "Dequeue (input_buffer s)") auto
      from pass_took [OF p k d] obtain evs where
        "trace s1 = trace s @ Dequeued f # evs" "pass_events ext (complete_handler s) f c evs"
        "input_buffer s1 = q" "destroyed s1 = destroyed s"
        by blast
      with Dequeue_Item [OF d] s' live run have
        "trace s' = trace s @ Dequeued f # evs" "pass_events ext (complete_handler s) f c evs"
        "items (input_buffer s) = f # items (input_buffer s')" "\<not> destroyed s'"
        "thread_work s = Running" "\<not> stopped (input_buffer s)"
        by auto
      then show thesis by (rule took)
    qed
  next
    case Destroy
    with st live have "s' = destructor s"
      by (simp add: step_def)
    with destructor_footprint [of s] obtain ls fr where
      "trace s' = trace s @ ls @ fr @ [Cleared (items (input_buffer s))]" "list_all is_log ls"
      "fr = (case filter_graph s of None \<Rightarrow> [] | Some g \<Rightarrow> [GraphFree (graph_id g)])"
      "items (input_buffer s') = []" "destroyed s'"
      by auto
    moreover from this(3) have "list_all is_free fr"
      by (simp split: option.splits)
    ultimately show thesis
      by (blast intro: destroy)
  qed
qed

lemma step_conserved:
  assumes "step ext a s = Some s'" and "conserved s"
  shows "conserved s'"
proof -
  from assms(1) have "\<not> destroyed s"
    by (auto simp: step_def split: if_splits)
  with assms(2) have c: "cleared (trace s) = []"
    and e: "enqueued (trace s) = dequeued (trace s) @ items (input_buffer s)"
    by (auto simp: conserved_def)
  from assms(1) show ?thesis
  proof (cases rule: step_effect)
    case (quiet ls)
    with c e quiet_projections [of ls] show ?thesis
      by (simp add: conserved_def)
  next
    case (send f ls)
    then have "enqueued ls = [] \<and> dequeued ls = [] \<and> cleared ls = []"
      by auto
    with send c e show ?thesis
      by (simp add: conserved_def)
  next
    case (took f c' evs)
    with c e pass_events_projections [of ext "complete_handler s" f c' evs] show ?thesis
      by (simp add: conserved_def)
  next
    case (destroy ls fr)
    have "enqueued fr = [] \<and> dequeued fr = [] \<and> cleared fr = []"
      using destroy(3) by (induction fr) (auto elim: is_free.elims)
    with destroy c e quiet_projections [of ls] show ?thesis
      by (simp add: conserved_def)
  qed
qed

lemma exec_conserved:
  "exec ext acts s = Some s' \<Longrightarrow> conserved s \<Longrightarrow> conserved s'"
proof (induction acts arbitrary: s)
  case Nil
  then show ?case by simp
next
  case (Cons a acts)
  then obtain s1 where "step ext a s = Some s1" "exec ext acts s1 = Some s'"
    by (auto split: option.splits)
  with Cons.IH Cons.prems(2) step_conserved show ?case
    by blast
qed






lemma deliveries_append:
  "deliveries k (xs @ ys) = deliveries k xs @ deliveries (k + length (dequeued xs)) ys"
proof (induction xs arbitrary: k)
  case Nil
  then show ?case by simp
next
  case (Cons e xs)
  then show ?case by (cases e) simp_all
qed

lemma deliveries_range:
  "(j, m) \<in> set (deliveries k tr) \<Longrightarrow> k \<le> j \<and> j \<le> k + length (dequeued tr)"
proof (induction tr arbitrary: k)
  case Nil
  then show ?case by simp
next
  case (Cons e tr)
  then show ?case by (cases e) (fastforce+)
qed

lemma deliveries_sorted: "sorted (map fst (deliveries k tr))"
proof (induction tr arbitrary: k)
  case Nil
  then show ?case by simp
next
  case (Cons e tr)
  then show ?case
    by (cases e) (auto dest: deliveries_range)
qed

lemma deliveries_idle: "filter is_work evs = [] \<Longrightarrow> deliveries k evs = []"
proof (induction evs)
  case Nil
  then show ?case by simp
next
  case (Cons e evs)
  then show ?case by (cases e) (simp_all split: if_splits)
qed

lemma step_deliveries:
  assumes "step ext a s = Some s'"
  shows "\<exists>evs. trace s' = trace s @ evs \<and> (\<forall>(j, m) \<in> set (deliveries n evs). n < j)"
  using assms
proof (cases rule: step_effect)
  case (quiet ls)
  with quiet_projections [of ls] show ?thesis
    by (simp add: deliveries_idle)
next
  case (send f ls)
  then have "filter is_work (Enqueued f # ls) = []" by auto
  then have "deliveries n (Enqueued f # ls) = []"
    by (rule deliveries_idle)
  with send(1) show ?thesis
    by (metis empty_iff list.set(1))
next
  case (took f c evs)
  have "\<forall>(j, m) \<in> set (deliveries n (Dequeued f # evs)). n < j"
    by (auto dest: deliveries_range)
  with took(1) show ?thesis by blast
next
  case (destroy ls fr)
  have "filter is_work fr = []"
    using destroy(3) by (induction fr) (auto elim: is_free.elims)
  with destroy(2) quiet_projections [of ls]
  have "filter is_work (ls @ fr @ [Cleared (items (input_buffer s))]) = []"
    by simp
  then have "deliveries n (ls @ fr @ [Cleared (items (input_buffer s))]) = []"
    by (rule deliveries_idle)
  with destroy(1) show ?thesis
    by (metis empty_iff list.set(1))
qed

lemma exec_deliveries:
  "exec ext acts s = Some s' \<Longrightarrow> \<forall>(j, m) \<in> set (deliveries 0 (trace s)). 1 \<le> j
     \<Longrightarrow> \<forall>(j, m) \<in> set (deliveries 0 (trace s')). 1 \<le> j"
proof (induction acts arbitrary: s)
  case Nil
  then show ?case by simp
next
  case (Cons a acts)
  then obtain s1 where s1: "step ext a s = Some s1" "exec ext acts s1 = Some s'"
    by (auto split: option.splits)
  from step_deliveries [OF s1(1), of "length (dequeued (trace s))"] obtain evs where
    "trace s1 = trace s @ evs"
    "\<forall>(j, m) \<in> set (deliveries (length (dequeued (trace s))) evs). length (dequeued (trace s)) < j"
    by blast
  with Cons.prems(2) have "\<forall>(j, m) \<in> set (deliveries 0 (trace s1)). 1 \<le> j"
    by (fastforce simp: deliveries_append)
  with Cons.IH s1(2) show ?case by blast
qed

lemma step_halted:
  assumes st: "step ext a s = Some s'" and h: "halted s"
  shows "halted s'" and "filter is_work (trace s') = filter is_work (trace s)"
    and "dequeued (trace s') = dequeued (trace s)"
proof -
  from st have live: "\<not> destroyed s"
    by (auto simp: step_def split: if_splits)
  show "halted s'"
  proof (cases a)
    case (CallConfigure it ot)
    with st live obtain b where "Configure ext it ot s = (Returns b, s')"
      by (auto simp: step_def split: prod.splits outcome.splits)
    from Configure_footprint [OF this] h show ?thesis
      by (simp add: halted_def)
  next
    case (CallStart spawned)
    with st live obtain b where "Start spawned s = (Returns b, s')"
      by (auto simp: step_def split: prod.splits outcome.splits)
    from Start_footprint [OF this] h show ?thesis
      by (auto simp: halted_def)
  next
    case CallStop
    with st live show ?thesis
      using Stop_footprint [of s] by (simp add: step_def halted_def Queue_Stop_def)
  next
    case (CallSendBuffer f)
    with st live h show ?thesis
      using SendBuffer_footprint [of f s] by (auto simp: step_def halted_def Enqueue_def)
  next
    case WorkerPass
    with st live obtain c s1 where run: "thread_work s = Running"
      and p: "FilterThread_pass ext s = Some (c, s1)"
      and s': "s' = (if c = Leave then s1\<lparr>thread_work := Returned\<rparr> else s1)"
      by (auto simp: step_def split: if_splits option.splits prod.splits loop_exit.splits)
    from run h have "stopped (input_buffer s)"
      by (simp add: halted_def)
    then have "Dequeue (input_buffer s) = Nothing"
      by (rule Dequeue_stopped)
    with pass_idle [OF p] have "s1 = s" by simp
    with s' h show ?thesis
      by (auto simp: halted_def)
  next
    case Destroy
    with st live show ?thesis
      using destructor_footprint [of s] by (simp add: step_def halted_def)
  qed
  from st have "filter is_work (trace s') = filter is_work (trace s)
      \<and> dequeued (trace s') = dequeued (trace s)"
  proof (cases rule: step_effect)
    case (quiet ls)
    with quiet_projections [of ls] show ?thesis
      by simp
  next
    case (send f ls)
    then show ?thesis
      by auto
  next
    case (took f c evs)
    with h show ?thesis
      by (simp add: halted_def)
  next
    case (destroy ls fr)
    have "filter is_work fr = [] \<and> dequeued fr = []"
      using destroy(3) by (induction fr) (auto elim: is_free.elims)
    with destroy quiet_projections [of ls] show ?thesis
      by simp
  qed
  then show "filter is_work (trace s') = filter is_work (trace s)"
    and "dequeued (trace s') = dequeued (trace s)"
    by simp_all
qed

lemma exec_halted:
  "exec ext acts s = Some s' \<Longrightarrow> halted s \<Longrightarrow>
     halted s' \<and> filter is_work (trace s') = filter is_work (trace s)
     \<and> dequeued (trace s') = dequeued (trace s)"
proof (induction acts arbitrary: s)
  case Nil
  then show ?case by simp
next
  case (Cons a acts)
  then obtain s1 where s1: "step ext a s = Some s1" "exec ext acts s1 = Some s'"
    by (auto split: option.splits)
  from step_halted [OF s1(1) Cons.prems(2)] Cons.IH [OF s1(2)] show ?case
    by simp
qed

lemma destructor_ledger:
  "ledger (destructor s)
     = (enqueued (trace s), dequeued (trace s), cleared (trace s) @ items (input_buffer s),
        filter is_error (trace s))"
proof -
  have "filter is_error (trace (Stop s)) = filter is_error (trace s)"
    "enqueued (trace (Stop s)) = enqueued (trace s)"
    "dequeued (trace (Stop s)) = dequeued (trace s)"
    "cleared (trace (Stop s)) = cleared (trace s)"
    "items (input_buffer (Stop s)) = items (input_buffer s)"
    by (simp_all add: Stop_def Let_def emit_def Queue_Stop_def)
  then show ?thesis
    by (cases "filter_graph (Stop s)")
       (simp_all add: ledger_def destructor_def Let_def emit_def)
qed

lemma step_halted_items:
  assumes st: "step ext a s = Some s'" and h: "halted s"
  shows "if a = Destroy
         then destroyed s' \<and> cleared (trace s') = cleared (trace s) @ items (input_buffer s)
         else \<not> destroyed s' \<and> cleared (trace s') = cleared (trace s)
              \<and> items (input_buffer s') = items (input_buffer s) @ sent [a]"
proof -
  from st have live: "\<not> destroyed s"
    by (auto simp: step_def split: if_splits)
  show ?thesis
  proof (cases a)
    case (CallConfigure it ot)
    with st live obtain b where "Configure ext it ot s = (Returns b, s')"
      by (auto simp: step_def split: prod.splits outcome.splits)
    from Configure_footprint [OF this] live CallConfigure show ?thesis
      by (auto dest: quiet_projections)
  next
    case (CallStart spawned)
    with st live obtain b where "Start spawned s = (Returns b, s')"
      by (auto simp: step_def split: prod.splits outcome.splits)
    from Start_footprint [OF this] live CallStart show ?thesis
      by (auto dest: quiet_projections)
  next
    case CallStop
    with st live have "s' = Stop s"
      by (simp add: step_def)
    with Stop_footprint [of s] live CallStop show ?thesis
      by (auto simp: Queue_Stop_def dest: quiet_projections)
  next
    case (CallSendBuffer f)
    with st live have "s' = snd (SendBuffer f s)"
      by (simp add: step_def)
    with SendBuffer_footprint [of f s] live CallSendBuffer show ?thesis
      by (auto simp: Enqueue_def)
  next
    case WorkerPass
    with st live obtain c s1 where run: "thread_work s = Running"
      and p: "FilterThread_pass ext s = Some (c, s1)"
      and s': "s' = (if c = Leave then s1\<lparr>thread_work := Returned\<rparr> else s1)"
      by (auto simp: step_def split: if_splits option.splits prod.splits loop_exit.splits)
    from run h have "Dequeue (input_buffer s) = Nothing"
      by (simp add: halted_def Dequeue_stopped)
    with pass_idle [OF p] have "s1 = s" by simp
    with s' live WorkerPass show ?thesis
      by auto
  next
    case Destroy
    with st live have "s' = destructor s"
      by (simp add: step_def)
    with destructor_ledger [of s] destructor_footprint [of s] Destroy show ?thesis
      by (simp add: ledger_def)
  qed
qed

lemma exec_destroyed: "destroyed s \<Longrightarrow> exec ext acts s = Some s' \<Longrightarrow> acts = [] \<and> s' = s"
  by (cases acts) (auto simp: step_def)

lemma exec_halted_items:
  "exec ext acts s = Some s' \<Longrightarrow> halted s \<Longrightarrow> \<not> destroyed s \<Longrightarrow>
     (if destroyed s'
      then cleared (trace s') = cleared (trace s) @ items (input_buffer s) @ sent acts
      else cleared (trace s') = cleared (trace s)
           \<and> items (input_buffer s') = items (input_buffer s) @ sent acts)"
proof (induction acts arbitrary: s)
  case Nil
  then show ?case by simp
next
  case (Cons a acts)
  then obtain s1 where s1: "step ext a s = Some s1" "exec ext acts s1 = Some s'"
    by (auto split: option.splits)
  note it = step_halted_items [OF s1(1) Cons.prems(2)]
  show ?case
  proof (cases "a = Destroy")
    case True
    with it have d: "destroyed s1" "cleared (trace s1) = cleared (trace s) @ items (input_buffer s)"
      by simp_all
    from exec_destroyed [OF d(1) s1(2)] d True show ?thesis
      by simp
  next
    case False
    with it have live: "\<not> destroyed s1" and c: "cleared (trace s1) = cleared (trace s)"
      and i: "items (input_buffer s1) = items (input_buffer s) @ sent [a]"
      by simp_all
    have "sent (a # acts) = sent [a] @ sent acts"
      by (cases a) simp_all
    with Cons.IH [OF s1(2) step_halted(1) [OF s1(1) Cons.prems(2)] live] c i show ?thesis
      by simp
  qed
qed

subsection \<open>The scale of two timebases\<close>







lemma order_Broken: "foldl (order_step h conv) Broken tr = Broken"
  by (induction tr) simp_all

lemma order_idle:
  "filter is_work evs = [] \<Longrightarrow> foldl (order_step h conv) Idle evs = Idle"
proof (induction evs)
  case Nil
  then show ?case by simp
next
  case (Cons e evs)
  then show ?case by (cases e) (simp_all split: if_splits)
qed

lemma order_drain:
  "exhausted rs \<Longrightarrow> foldl (order_step h conv) Draining (drain_events h conv rs) = Idle"
proof (induction rs)
  case Nil
  then show ?case by (simp add: exhausted_def)
next
  case (Cons x rs)
  obtain r fr where x: "x = (r, fr)" by (cases x)
  show ?case
  proof (cases "rs = []")
    case True
    with Cons.prems x have "r < 0"
      by (simp add: exhausted_def)
    with True x show ?thesis
      by (simp add: stop_lines_def)
  next
    case False
    with Cons.prems x have r: "0 \<le> r" and ex: "exhausted rs"
      by (auto simp: exhausted_def)
    from Cons.IH [OF ex] r x show ?thesis
      by (auto split: option.splits)
  qed
qed

lemma order_pass:
  assumes "pass_events ext h f c evs"
  shows "foldl (order_step h (ToMediaFrame ext Audio)) Holding evs = Idle"
proof (cases "ToAVFrame ext Video f")
  case None
  with assms show ?thesis by (simp add: pass_events_def)
next
  case (Some av)
  with assms consider
      (refused) r l where "r < 0" "evs = [Feed av r, l]" "is_error l"
    | (fed) r rs where "0 \<le> r" "exhausted rs"
        "evs = Feed av r # drain_events h (ToMediaFrame ext Audio) rs"
    by (auto simp: pass_events_def)
  then show ?thesis
  proof cases
    case refused
    then show ?thesis by (auto elim: is_error.elims)
  next
    case fed
    then show ?thesis by (simp add: order_drain)
  qed
qed

lemma step_handler:
  assumes "step ext a s = Some s'"
  shows "complete_handler s' = complete_handler s"
proof -
  from assms have live: "\<not> destroyed s"
    by (auto simp: step_def split: if_splits)
  show ?thesis
  proof (cases a)
    case (CallConfigure it ot)
    with assms live obtain b where "Configure ext it ot s = (Returns b, s')"
      by (auto simp: step_def split: prod.splits outcome.splits)
    from Configure_footprint [OF this] show ?thesis by simp
  next
    case (CallStart spawned)
    with assms live obtain b where "Start spawned s = (Returns b, s')"
      by (auto simp: step_def split: prod.splits outcome.splits)
    from Start_footprint [OF this] show ?thesis by simp
  next
    case CallStop
    with assms live show ?thesis
      using Stop_footprint [of s] by (simp add: step_def)
  next
    case (CallSendBuffer f)
    with assms live show ?thesis
      using SendBuffer_footprint [of f s] by (simp add: step_def)
  next
    case WorkerPass
    with assms live obtain c s1 where p: "FilterThread_pass ext s = Some (c, s1)"
      and s': "s' = (if c = Leave then s1\<lparr>thread_work := Returned\<rparr> else s1)"
      by (auto simp: step_def split: if_splits option.splits prod.splits loop_exit.splits)
    from p have "complete_handler s1 = complete_handler s"
      by (auto simp: FilterThread_pass_def emit_def Let_def
               split: if_splits dequeued.splits option.splits prod.splits dest!: drain_keeps)
    with s' show ?thesis by simp
  next
    case Destroy
    with assms live have "s' = destructor s"
      by (simp add: step_def)
    moreover have "complete_handler (Stop s) = complete_handler s"
      using Stop_footprint [of s] by simp
    ultimately show ?thesis
      by (simp add: destructor_def Let_def emit_def split: option.splits)
  qed
qed

lemma step_in_turn:
  assumes "step ext a s = Some s'"
    and "drained_in_turn (complete_handler s) (ToMediaFrame ext Audio) (trace s)"
  shows "drained_in_turn (complete_handler s) (ToMediaFrame ext Audio) (trace s')"
  using assms(1)
proof (cases rule: step_effect)
  case (quiet ls)
  with assms(2) quiet_projections [of ls] show ?thesis
    by (simp add: drained_in_turn_def order_idle)
next
  case (send f ls)
  then have "filter is_work (Enqueued f # ls) = []" by auto
  then have "foldl (order_step (complete_handler s) (ToMediaFrame ext Audio)) Idle (Enqueued f # ls) = Idle"
    by (rule order_idle)
  with send(1) assms(2) show ?thesis
    by (simp add: drained_in_turn_def)
next
  case (took f c evs)
  with assms(2) order_pass [of ext "complete_handler s" f c evs] show ?thesis
    by (simp add: drained_in_turn_def)
next
  case (destroy ls fr)
  have "filter is_work fr = []"
    using destroy(3) by (induction fr) (auto elim: is_free.elims)
  with destroy(2) quiet_projections [of ls]
  have "filter is_work (ls @ fr @ [Cleared (items (input_buffer s))]) = []"
    by simp
  then have "foldl (order_step (complete_handler s) (ToMediaFrame ext Audio)) Idle
               (ls @ fr @ [Cleared (items (input_buffer s))]) = Idle"
    by (rule order_idle)
  with destroy(1) assms(2) show ?thesis
    by (simp add: drained_in_turn_def)
qed

lemma exec_in_turn:
  "exec ext acts s = Some s' \<Longrightarrow>
     drained_in_turn (complete_handler s) (ToMediaFrame ext Audio) (trace s) \<Longrightarrow>
     drained_in_turn (complete_handler s) (ToMediaFrame ext Audio) (trace s')"
proof (induction acts arbitrary: s)
  case Nil
  then show ?case by simp
next
  case (Cons a acts)
  then obtain s1 where s1: "step ext a s = Some s1" "exec ext acts s1 = Some s'"
    by (auto split: option.splits)
  from step_in_turn [OF s1(1) Cons.prems(2)] step_handler [OF s1(1)] Cons.IH [OF s1(2)]
  show ?case by simp
qed

text \<open>In an orderly trace the frames delivered are the frames produced, each in the turn of its input frame.\<close>

lemma order_agree:
  "foldl (order_step True conv) ph tr = Idle \<Longrightarrow>
     (ph \<noteq> Idle \<and> ph \<noteq> Holding \<and> ph \<noteq> Turned \<longrightarrow> j = k) \<Longrightarrow>
     deliveries k tr = (case ph of Handing m \<Rightarrow> [(k, m)] | _ \<Rightarrow> []) @ produced conv k j tr"
proof (induction tr arbitrary: ph k j)
  case Nil
  then show ?case by (cases ph) simp_all
next
  case (Cons e tr)
  have nb: "order_step True conv ph e \<noteq> Broken"
    using Cons.prems(1) by (auto simp: order_Broken)
  have next_turn: "deliveries k' tr
      = (case order_step True conv ph e of Handing m \<Rightarrow> [(k', m)] | _ \<Rightarrow> []) @ produced conv k' j' tr"
    if "order_step True conv ph e \<noteq> Idle \<and> order_step True conv ph e \<noteq> Holding
          \<and> order_step True conv ph e \<noteq> Turned \<longrightarrow> j' = k'" for k' j'
    using Cons.IH [of "order_step True conv ph e" j' k'] Cons.prems(1) that by simp
  show ?case
  proof (cases e)
    case (Log lv msg args)
    with nb Cons.prems(2) next_turn [of j k] show ?thesis
      by (cases ph; cases lv) auto
  next
    case (Enqueued f)
    with nb Cons.prems(2) next_turn [of j k] show ?thesis
      by (cases ph) auto
  next
    case (Dequeued f)
    with nb Cons.prems(2) next_turn [of j "Suc k"] show ?thesis
      by (cases ph) auto
  next
    case (Feed av r)
    with nb Cons.prems(2) next_turn [of "if 0 \<le> r then k else j" k] show ?thesis
      by (cases ph) (auto split: if_splits)
  next
    case (Receive r fr)
    with nb Cons.prems(2) next_turn [of j k] show ?thesis
      by (cases ph) (auto split: if_splits option.splits)
  next
    case (Deliver m)
    with nb Cons.prems(2) next_turn [of j k] show ?thesis
      by (cases ph) (auto split: if_splits)
  next
    case (GraphFree p)
    with nb Cons.prems(2) next_turn [of j k] show ?thesis
      by (cases ph) auto
  next
    case (Cleared fs)
    with nb Cons.prems(2) next_turn [of j k] show ?thesis
      by (cases ph) auto
  next
    case (QueueOverThreshold n)
    with nb Cons.prems(2) next_turn [of j k] show ?thesis
      by (cases ph) auto
  qed
qed

lemma order_silent:
  "foldl (order_step False conv) ph tr = Idle \<Longrightarrow> (\<forall>m. ph \<noteq> Handing m) \<Longrightarrow>
     deliveries k tr = []"
proof (induction tr arbitrary: ph k)
  case Nil
  then show ?case by simp
next
  case (Cons e tr)
  have nb: "order_step False conv ph e \<noteq> Broken"
    using Cons.prems(1) by (auto simp: order_Broken)
  have next_turn: "deliveries k' tr = []"
    if "\<forall>m. order_step False conv ph e \<noteq> Handing m" for k'
    using Cons.IH [of "order_step False conv ph e" k'] Cons.prems(1) that by simp
  show ?case
  proof (cases e)
    case (Log lv msg args)
    with nb Cons.prems(2) next_turn [of k] show ?thesis
      by (cases ph; cases lv) auto
  next
    case (Enqueued f)
    with nb Cons.prems(2) next_turn [of k] show ?thesis
      by (cases ph) auto
  next
    case (Dequeued f)
    with nb Cons.prems(2) next_turn [of "Suc k"] show ?thesis
      by (cases ph) auto
  next
    case (Feed av r)
    with nb Cons.prems(2) next_turn [of k] show ?thesis
      by (cases ph) (auto split: if_splits)
  next
    case (Receive r fr)
    with nb Cons.prems(2) next_turn [of k] show ?thesis
      by (cases ph) (auto split: if_splits option.splits)
  next
    case (Deliver m)
    with nb Cons.prems(2) show ?thesis
      by (cases ph) (auto split: if_splits)
  next
    case (GraphFree p)
    with nb Cons.prems(2) next_turn [of k] show ?thesis
      by (cases ph) auto
  next
    case (Cleared fs)
    with nb Cons.prems(2) next_turn [of k] show ?thesis
      by (cases ph) auto
  next
    case (QueueOverThreshold n)
    with nb Cons.prems(2) next_turn [of k] show ?thesis
      by (cases ph) auto
  qed
qed

lemma in_turn_deliveries:
  assumes "drained_in_turn h conv tr"
  shows "deliveries 0 tr = (if h then produced conv 0 0 tr else [])"
proof (cases h)
  case True
  with assms order_agree [of conv Idle tr 0 0] show ?thesis
    by (simp add: drained_in_turn_def)
next
  case False
  with assms order_silent [of conv Idle tr 0] show ?thesis
    by (simp add: drained_in_turn_def)
qed

text \<open>When a frame is taken, the trace up to there is orderly as well.\<close>

lemma in_turn_before_take:
  assumes "drained_in_turn h conv (pre @ Dequeued f # post)"
  shows "drained_in_turn h conv pre"
proof (rule ccontr)
  assume n: "\<not> drained_in_turn h conv pre"
  then have "order_step h conv (foldl (order_step h conv) Idle pre) (Dequeued f) = Broken"
    by (cases "foldl (order_step h conv) Idle pre") (simp_all add: drained_in_turn_def)
  then have "foldl (order_step h conv) Idle (pre @ Dequeued f # post) = Broken"
    by (simp add: order_Broken)
  with assms show False
    by (simp add: drained_in_turn_def)
qed

subsection \<open>SendBuffer\<close>

text \<open>
  C8.  In every state of the object, whatever the depth of the queue, SendBuffer returns
  0 and the frame is at the back of the queue behind all the frames that were there; the
  call adds no error line to the log.  SendBuffer is a function of the state alone: it has
  no state in which it waits, as Dequeue has.
\<close>

theorem SendBuffer_returns_zero:
  "fst (SendBuffer f s) = 0
   \<and> items (input_buffer (snd (SendBuffer f s))) = items (input_buffer s) @ [f]
   \<and> Size (input_buffer (snd (SendBuffer f s))) = Size (input_buffer s) + 1
   \<and> stopped (input_buffer (snd (SendBuffer f s))) = stopped (input_buffer s)
   \<and> enqueued (trace (snd (SendBuffer f s))) = enqueued (trace s) @ [f]
   \<and> filter is_error (trace (snd (SendBuffer f s))) = filter is_error (trace s)"
  by (simp add: SendBuffer_def Let_def emit_def Enqueue_def Size_def enqueued_def)

theorem SendBuffer_returns_zero_witness:
  "threshold (input_buffer deep) = 100 \<and> Size (input_buffer deep) = 150
   \<and> fst (SendBuffer (7, 2) deep) = 0
   \<and> Size (input_buffer (snd (SendBuffer (7, 2) deep))) = 151
   \<and> last (items (input_buffer (snd (SendBuffer (7, 2) deep)))) = (7, 2)"
proof -
  have a: "threshold (input_buffer deep) = 100" by code_simp
  have b: "Size (input_buffer deep) = 150" by code_simp
  show ?thesis
    using SendBuffer_returns_zero [of "(7, 2)" deep] a b by simp
qed

subsection \<open>The fate of the frames handed over\<close>




subsection \<open>The order of the delivered frames\<close>

text \<open>
  C2.  The output frames of an input frame are the frames the sink gives, and ToMediaFrame
  converts, in the drain that follows the successful feed of that input frame
  (\<open>produced\<close> numbers each of them with the input frame last fed before it was
  received); the handler's calls are read off independently (\<open>deliveries\<close> numbers
  each call with the frames taken before it).  In every execution that starts with an
  empty queue and an empty trace:
  the frames the worker has taken are the first of the frames handed over, in the order
  in which they were handed over;
  the worker's work proceeds in turns (\<open>drained_in_turn\<close>): a frame is taken only at the
  head of the loop, that is after the sink has answered the drain of the frame before
  with a negative code (or that frame was turned away), and every frame the sink gave and
  ToMediaFrame converted is handed to the handler, that frame and no other, before the
  sink is asked again;
  the calls of the handler are exactly the produced frames, in the order of production and
  with the same input frame each (there are none when no handler is registered);
  at the moment any frame is taken, all this holds of the trace up to there, so every
  output frame of the frames before has been delivered already;
  the input numbers along the calls of the handler never go down, and each is the number
  of a frame that was taken.
  So no output frame of a later input frame is delivered before an output frame of an
  earlier one.
\<close>

theorem deliveries_follow_input_order:
  assumes "exec ext acts s0 = Some s" and "trace s0 = []" and "items (input_buffer s0) = []"
  shows "prefix (dequeued (trace s)) (enqueued (trace s))
     \<and> drained_in_turn (complete_handler s0) (ToMediaFrame ext Audio) (trace s)
     \<and> deliveries 0 (trace s)
         = (if complete_handler s0 then produced (ToMediaFrame ext Audio) 0 0 (trace s) else [])
     \<and> (\<forall>pre f post. trace s = pre @ Dequeued f # post \<longrightarrow>
            drained_in_turn (complete_handler s0) (ToMediaFrame ext Audio) pre
          \<and> deliveries 0 pre
              = (if complete_handler s0 then produced (ToMediaFrame ext Audio) 0 0 pre else []))
     \<and> sorted (map fst (deliveries 0 (trace s)))
     \<and> (\<forall>(k, m) \<in> set (deliveries 0 (trace s)). 1 \<le> k \<and> k \<le> length (dequeued (trace s)))"
proof -
  have "conserved s0"
    using assms(2,3) by (simp add: conserved_def)
  with assms(1) have "conserved s"
    by (rule exec_conserved)
  then have p: "prefix (dequeued (trace s)) (enqueued (trace s))"
    by (simp add: conserved_def)
  have "drained_in_turn (complete_handler s0) (ToMediaFrame ext Audio) (trace s0)"
    using assms(2) by (simp add: drained_in_turn_def)
  with assms(1) have t: "drained_in_turn (complete_handler s0) (ToMediaFrame ext Audio) (trace s)"
    by (rule exec_in_turn)
  note a = in_turn_deliveries [OF t]
  have "\<forall>(j, m) \<in> set (deliveries 0 (trace s0)). 1 \<le> j"
    using assms(2) by simp
  with assms(1) have "\<forall>(j, m) \<in> set (deliveries 0 (trace s)). 1 \<le> j"
    by (rule exec_deliveries)
  then have r: "\<forall>(k, m) \<in> set (deliveries 0 (trace s)). 1 \<le> k \<and> k \<le> length (dequeued (trace s))"
    using deliveries_range [of _ _ 0 "trace s"] by fastforce
  have b: "drained_in_turn (complete_handler s0) (ToMediaFrame ext Audio) pre
          \<and> deliveries 0 pre
              = (if complete_handler s0 then produced (ToMediaFrame ext Audio) 0 0 pre else [])"
    if "trace s = pre @ Dequeued f # post" for pre f post
  proof -
    from t that have "drained_in_turn (complete_handler s0) (ToMediaFrame ext Audio) pre"
      by (simp add: in_turn_before_take)
    then show ?thesis
      by (simp add: in_turn_deliveries)
  qed
  show ?thesis
    using p t a b r deliveries_sorted [of 0 "trace s"] by blast
qed

theorem deliveries_follow_input_order_witness:
  "trace fresh = [] \<and> items (input_buffer fresh) = [] \<and> complete_handler fresh
   \<and> (\<exists>s. exec chunker_ext run_three fresh = Some s
          \<and> enqueued (trace s) = [(10, 5), (20, 1), (30, 2)]
          \<and> dequeued (trace s) = [(10, 5), (20, 1), (30, 2)]
          \<and> deliveries 0 (trace s) = [(1, (0, 2)), (1, (2, 2)), (2, (4, 2)), (3, (6, 2))]
          \<and> produced (ToMediaFrame chunker_ext Audio) 0 0 (trace s)
              = [(1, (0, 2)), (1, (2, 2)), (2, (4, 2)), (3, (6, 2))]
          \<and> drained_in_turn True (ToMediaFrame chunker_ext Audio) (trace s)
          \<and> prefix (dequeued (trace s)) (enqueued (trace s))
          \<and> sorted (map fst (deliveries 0 (trace s))))
   \<and> \<not> drained_in_turn True (ToMediaFrame chunker_ext Audio) swapped
   \<and> \<not> drained_in_turn True (ToMediaFrame chunker_ext Audio) undrained"
proof -
  have a: "trace fresh = []" by code_simp
  have b: "items (input_buffer fresh) = []" by code_simp
  have h: "complete_handler fresh" by code_simp
  have "map_option (\<lambda>s. (ledger s, deliveries 0 (trace s))) (exec chunker_ext run_three fresh)
          = Some (([(10, 5), (20, 1), (30, 2)], [(10, 5), (20, 1), (30, 2)], [], []),
                  [(1, (0, 2)), (1, (2, 2)), (2, (4, 2)), (3, (6, 2))])"
    by code_simp
  then obtain s where s: "exec chunker_ext run_three fresh = Some s"
    and l: "ledger s = ([(10, 5), (20, 1), (30, 2)], [(10, 5), (20, 1), (30, 2)], [], [])"
    and d: "deliveries 0 (trace s) = [(1, (0, 2)), (1, (2, 2)), (2, (4, 2)), (3, (6, 2))]"
    by auto
  note main = deliveries_follow_input_order [OF s a b]
  from main have p: "prefix (dequeued (trace s)) (enqueued (trace s))"
    by blast
  from main h have t: "drained_in_turn True (ToMediaFrame chunker_ext Audio) (trace s)"
    by simp
  from main h have "deliveries 0 (trace s) = produced (ToMediaFrame chunker_ext Audio) 0 0 (trace s)"
    by simp
  with d have q: "produced (ToMediaFrame chunker_ext Audio) 0 0 (trace s)
              = [(1, (0, 2)), (1, (2, 2)), (2, (4, 2)), (3, (6, 2))]"
    by simp
  from main have o: "sorted (map fst (deliveries 0 (trace s)))"
    by blast
  from l have e: "enqueued (trace s) = [(10, 5), (20, 1), (30, 2)]"
    and f: "dequeued (trace s) = [(10, 5), (20, 1), (30, 2)]"
    by (simp_all add: ledger_def)
  from e f d q t p o
  have "enqueued (trace s) = [(10, 5), (20, 1), (30, 2)]
          \<and> dequeued (trace s) = [(10, 5), (20, 1), (30, 2)]
          \<and> deliveries 0 (trace s) = [(1, (0, 2)), (1, (2, 2)), (2, (4, 2)), (3, (6, 2))]
          \<and> produced (ToMediaFrame chunker_ext Audio) 0 0 (trace s)
              = [(1, (0, 2)), (1, (2, 2)), (2, (4, 2)), (3, (6, 2))]
          \<and> drained_in_turn True (ToMediaFrame chunker_ext Audio) (trace s)
          \<and> prefix (dequeued (trace s)) (enqueued (trace s))
          \<and> sorted (map fst (deliveries 0 (trace s)))"
    by blast
  with s have run: "\<exists>s. exec chunker_ext run_three fresh = Some s
          \<and> enqueued (trace s) = [(10, 5), (20, 1), (30, 2)]
          \<and> dequeued (trace s) = [(10, 5), (20, 1), (30, 2)]
          \<and> deliveries 0 (trace s) = [(1, (0, 2)), (1, (2, 2)), (2, (4, 2)), (3, (6, 2))]
          \<and> produced (ToMediaFrame chunker_ext Audio) 0 0 (trace s)
              = [(1, (0, 2)), (1, (2, 2)), (2, (4, 2)), (3, (6, 2))]
          \<and> drained_in_turn True (ToMediaFrame chunker_ext Audio) (trace s)
          \<and> prefix (dequeued (trace s)) (enqueued (trace s))
          \<and> sorted (map fst (deliveries 0 (trace s)))"
    by blast
  have sw: "\<not> drained_in_turn True (ToMediaFrame chunker_ext Audio) swapped" by code_simp
  have un: "\<not> drained_in_turn True (ToMediaFrame chunker_ext Audio) undrained" by code_simp
  show ?thesis
    by (intro conjI a b h run sw un)
qed

subsection \<open>A frame that cannot be converted\<close>

text \<open>
  C7.  When the worker takes a frame that ToAVFrame cannot convert, the pass logs the error
  line of line 201 and leaves the loop: the thread has returned.  Whatever is called
  afterwards (more frames, a stop, a new start), no frame is taken out of the queue, fed,
  received or delivered any more.
\<close>

theorem conversion_failure_ends_worker:
  assumes "thread_work s = Running" and "\<not> destroyed s" and "\<not> kill_flag s"
    and "Dequeue (input_buffer s) = Item f q" and "ToAVFrame ext Video f = None"
  shows "FilterThread_pass ext s
           = Some (Leave, emit [Log LogError ''Could not allocate the frame data'' []]
                            (emit [Dequeued f] (s\<lparr>input_buffer := q\<rparr>)))
     \<and> (\<exists>s'. step ext WorkerPass s = Some s' \<and> thread_work s' = Returned
           \<and> trace s' = trace s @ [Dequeued f, Log LogError ''Could not allocate the frame data'' []]
           \<and> (\<forall>acts s''. exec ext acts s' = Some s'' \<longrightarrow>
                  filter is_work (trace s'') = filter is_work (trace s')
                  \<and> dequeued (trace s'') = dequeued (trace s')))"
proof -
  let ?s1 = "emit [Log LogError ''Could not allocate the frame data'' []]
               (emit [Dequeued f] (s\<lparr>input_buffer := q\<rparr>))"
  have p: "FilterThread_pass ext s = Some (Leave, ?s1)"
    using assms by (simp add: FilterThread_pass_def Let_def)
  let ?s' = "?s1\<lparr>thread_work := Returned\<rparr>"
  have st: "step ext WorkerPass s = Some ?s'"
    using assms(1,2) p by (simp add: step_def)
  have "halted ?s'"
    by (simp add: halted_def)
  then have "\<forall>acts s''. exec ext acts ?s' = Some s'' \<longrightarrow>
                  filter is_work (trace s'') = filter is_work (trace ?s')
                  \<and> dequeued (trace s'') = dequeued (trace ?s')"
    using exec_halted by blast
  moreover have "thread_work ?s' = Returned"
    "trace ?s' = trace s @ [Dequeued f, Log LogError ''Could not allocate the frame data'' []]"
    by (simp_all add: emit_def)
  ultimately show ?thesis
    using p st by blast
qed

theorem conversion_failure_ends_worker_witness:
  "thread_work with_bad_frame = Running \<and> \<not> destroyed with_bad_frame \<and> \<not> kill_flag with_bad_frame
   \<and> Dequeue (input_buffer with_bad_frame)
       = Item (40, 2000) ((input_buffer with_bad_frame)\<lparr>items := []\<rparr>)
   \<and> ToAVFrame chunker_ext Video (40, 2000) = None
   \<and> (\<exists>s'. step chunker_ext WorkerPass with_bad_frame = Some s' \<and> thread_work s' = Returned
         \<and> trace s' = trace with_bad_frame
              @ [Dequeued (40, 2000), Log LogError ''Could not allocate the frame data'' []]
         \<and> (\<exists>s''. exec chunker_ext revive s' = Some s''
                \<and> items (input_buffer s'') = [(50, 2), (60, 2)]
                \<and> filter is_work (trace s'') = filter is_work (trace s')))"
proof -
  have a: "thread_work with_bad_frame = Running" by code_simp
  have b: "\<not> destroyed with_bad_frame" by code_simp
  have c: "\<not> kill_flag with_bad_frame" by code_simp
  have d: "Dequeue (input_buffer with_bad_frame)
       = Item (40, 2000) ((input_buffer with_bad_frame)\<lparr>items := []\<rparr>)" by code_simp
  have e: "ToAVFrame chunker_ext Video (40, 2000) = None" by code_simp
  from conversion_failure_ends_worker [OF a b c d e] obtain s' where
    s': "step chunker_ext WorkerPass with_bad_frame = Some s'" "thread_work s' = Returned"
      "trace s' = trace with_bad_frame
              @ [Dequeued (40, 2000), Log LogError ''Could not allocate the frame data'' []]"
    and after: "\<forall>acts s''. exec chunker_ext acts s' = Some s'' \<longrightarrow>
                  filter is_work (trace s'') = filter is_work (trace s')
                  \<and> dequeued (trace s'') = dequeued (trace s')"
    by blast
  have "map_option (\<lambda>t. items (input_buffer t)) (exec chunker_ext (WorkerPass # revive) with_bad_frame)
          = Some [(50, 2), (60, 2)]"
    by code_simp
  with s'(1) obtain s'' where s'': "exec chunker_ext revive s' = Some s''"
    "items (input_buffer s'') = [(50, 2), (60, 2)]"
    by auto
  with after have "filter is_work (trace s'') = filter is_work (trace s')"
    by blast
  with a b c d e s' s'' show ?thesis
    by blast
qed

subsection \<open>Frames handed over to a stopped object\<close>

text \<open>
  C10.  SendBuffer returns 0 and puts the frame into the queue in every state of the
  object, be it not configured, not started or stopped, and adds no error line.  After
  Stop no thread is left and the queue answers every Dequeue with nothing.  Whatever is
  called after Stop, a new start with passes of its worker included, the worker's part of
  the trace stays as it was: nothing is taken, fed, received or delivered.  The frames
  handed over after Stop stay in the queue behind those that were there, until the
  destructor clears them all.
\<close>

theorem frames_after_Stop_never_fed:
  assumes "exec ext acts (Stop s) = Some s'" and "\<not> destroyed s"
  shows "thread_work (Stop s) = NotAThread \<and> Dequeue (input_buffer (Stop s)) = Nothing
     \<and> (\<forall>f t. fst (SendBuffer f t) = 0
            \<and> items (input_buffer (snd (SendBuffer f t))) = items (input_buffer t) @ [f]
            \<and> filter is_error (trace (snd (SendBuffer f t))) = filter is_error (trace t))
     \<and> filter is_work (trace s') = filter is_work (trace s)
     \<and> (if destroyed s'
         then cleared (trace s') = cleared (trace s) @ items (input_buffer s) @ sent acts
         else items (input_buffer s') = items (input_buffer s) @ sent acts)"
proof -
  have h: "halted (Stop s)" and live: "\<not> destroyed (Stop s)"
    using Stop_footprint [of s] assms(2) by (simp_all add: halted_def Queue_Stop_def)
  have same: "filter is_work (trace (Stop s)) = filter is_work (trace s)"
    "cleared (trace (Stop s)) = cleared (trace s)"
    "items (input_buffer (Stop s)) = items (input_buffer s)"
    using Stop_footprint [of s] by (auto simp: Queue_Stop_def dest: quiet_projections)
  have "thread_work (Stop s) = NotAThread \<and> Dequeue (input_buffer (Stop s)) = Nothing"
    using Stop_footprint [of s] by (simp add: Dequeue_stopped Queue_Stop_def)
  moreover have "\<forall>f t. fst (SendBuffer f t) = 0
            \<and> items (input_buffer (snd (SendBuffer f t))) = items (input_buffer t) @ [f]
            \<and> filter is_error (trace (snd (SendBuffer f t))) = filter is_error (trace t)"
    by (simp add: SendBuffer_def Let_def emit_def Enqueue_def)
  moreover have "filter is_work (trace s') = filter is_work (trace s)"
    using exec_halted [OF assms(1) h] same by simp
  moreover have "if destroyed s'
         then cleared (trace s') = cleared (trace s) @ items (input_buffer s) @ sent acts
         else items (input_buffer s') = items (input_buffer s) @ sent acts"
    using exec_halted_items [OF assms(1) h live] same by (simp split: if_splits)
  ultimately show ?thesis
    by blast
qed

theorem frames_after_Stop_never_fed_witness:
  "\<not> destroyed (holding (10, 2))
   \<and> (\<exists>s'. exec chunker_ext after_stop (Stop (holding (10, 2))) = Some s'
          \<and> \<not> destroyed s' \<and> thread_work s' = Running
          \<and> items (input_buffer s') = [(10, 2), (50, 2), (60, 2)]
          \<and> filter is_work (trace s') = filter is_work (trace (holding (10, 2))))
   \<and> filter_graph fresh = None \<and> fst (SendBuffer (1, 2) fresh) = 0
   \<and> thread_work configured = NotAThread \<and> fst (SendBuffer (1, 2) configured) = 0"
proof -
  have a: "\<not> destroyed (holding (10, 2))" by code_simp
  have "map_option (\<lambda>t. (destroyed t, thread_work t, items (input_buffer t)))
          (exec chunker_ext after_stop (Stop (holding (10, 2))))
        = Some (False, Running, [(10, 2), (50, 2), (60, 2)])"
    by code_simp
  then obtain s' where s': "exec chunker_ext after_stop (Stop (holding (10, 2))) = Some s'"
    "\<not> destroyed s'" "thread_work s' = Running"
    "items (input_buffer s') = [(10, 2), (50, 2), (60, 2)]"
    by auto
  have b: "filter_graph fresh = None" by code_simp
  have c: "thread_work configured = NotAThread" by code_simp
  from frames_after_Stop_never_fed [OF s'(1) a] a b c s' show ?thesis
    by auto
qed

subsection \<open>Draining the pipeline\<close>



subsection \<open>Configure and the timebases\<close>




subsection \<open>Configure and null tracks\<close>

text \<open>
  C4, as the spec states it: a call of Configure with a null track returns false, and the
  test comes before any field of a track is read.  With the graph and the pad lists
  allocated, a null input track is read through at line 65.
\<close>

theorem null_track_is_dereferenced:
  "fst (Configure chunker_ext None (Some (track 1 48000 48000)) fresh) = Aborts NullDereference"
  by code_simp

text \<open>
  C4, amended.  Configure has no test of the two tracks.  Its one null test (line 56) is on
  the graph it has just allocated and on the two pad lists of the constructor.  Called with
  a null track, it returns false when that test fails, and reads through the null pointer
  otherwise.
\<close>

theorem Configure_null_track_not_checked:
  assumes "it = None \<or> ot = None"
  shows "fst (Configure ext it ot s) =
           (if fst (avfilter_graph_alloc ext (libav s)) = None \<or> inputs s = None \<or> outputs s = None
            then Returns False else Aborts NullDereference)"
proof -
  obtain graph w1 where al: "avfilter_graph_alloc ext (libav s) = (graph, w1)"
    by (metis surj_pair)
  show ?thesis
  proof (cases "graph = None \<or> inputs s = None \<or> outputs s = None")
    case True
    with al show ?thesis
      by (auto simp: Configure_def Let_def alloc_failed_def split: option.splits)
  next
    case False
    then obtain g i outp where "graph = Some g" "inputs s = Some i" "outputs s = Some outp"
      by auto
    with al assms show ?thesis
      by (auto simp: Configure_def Let_def Configure_timebase_def split: option.splits)
  qed
qed

theorem Configure_null_track_not_checked_witness:
  "((None :: MediaTrack option) = None \<or> Some (track 1 48000 48000) = None)
   \<and> fst (avfilter_graph_alloc chunker_ext (libav fresh)) \<noteq> None
   \<and> inputs fresh \<noteq> None \<and> outputs fresh \<noteq> None
   \<and> fst (Configure chunker_ext None (Some (track 1 48000 48000)) fresh) = Aborts NullDereference
   \<and> fst (Configure chunker_ext None (Some (track 1 48000 48000)) (fresh\<lparr>inputs := None\<rparr>))
       = Returns False"
proof -
  have a: "(None :: MediaTrack option) = None \<or> Some (track 1 48000 48000) = None"
    by simp
  have b: "fst (avfilter_graph_alloc chunker_ext (libav fresh)) \<noteq> None" by code_simp
  have c: "inputs fresh \<noteq> None" by code_simp
  have d: "outputs fresh \<noteq> None" by code_simp
  have e: "fst (Configure chunker_ext None (Some (track 1 48000 48000)) fresh) = Aborts NullDereference"
    using Configure_null_track_not_checked [OF a, of chunker_ext fresh] b c d by simp
  have f: "fst (Configure chunker_ext None (Some (track 1 48000 48000)) (fresh\<lparr>inputs := None\<rparr>))
       = Returns False"
    using Configure_null_track_not_checked [OF a, of chunker_ext "fresh\<lparr>inputs := None\<rparr>"] by simp
  show ?thesis
    by (intro conjI a b c d e f)
qed

subsection \<open>A Configure that fails\<close>




subsection \<open>A feed that is refused\<close>

text \<open>
  C9.  When av_buffersrc_add_frame_flags refuses the frame the worker has converted, the
  pass logs one error line and is back at the head of the loop: the stage goes on with the
  next frame.  The last argument of the line is the depth of the queue.  The timestamp and
  the geometry in the line are those of the member \<^verbatim>\<open>_frame\<close>, the frame that
  av_buffersink_get_frame fills, as it was before the pass; the frame \<open>av\<close> that was fed
  does not occur in the line.  In the example the frame fed has the timestamp 30 and the
  line has the timestamp of an unreferenced frame.
\<close>

theorem rejected_feed_logs_member_frame:
  assumes "\<not> kill_flag s" and "Dequeue (input_buffer s) = Item f q"
    and "ToAVFrame ext Video f = Some av"
    and "av_buffersrc_add_frame_flags ext (libav s) (buffersrc_ctx s) av = (r, w)" and "r < 0"
  shows "\<exists>s'. FilterThread_pass ext s = Some (Again, s')
           \<and> trace s' = trace s @
               [Dequeued f, Feed av r,
                Log LogError
                  ''An error occurred while feeding the audio filtergraph: pts: %lld, linesize: %d, srate: %d, layout: %d, channels: %d, format: %d, rq: %d''
                  [pts (frame s), linesize0 (frame s), sample_rate (frame s),
                   channel_layout (frame s), channels (frame s), format (frame s),
                   int (Size q)]]"
  using assms
  by (simp add: FilterThread_pass_def Let_def emit_def feed_error_line_def Size_def)

theorem rejected_feed_logs_member_frame_witness:
  "\<not> kill_flag (holding (30, - 1))
   \<and> Dequeue (input_buffer (holding (30, - 1))) = Item (30, - 1) (input_buffer started)
   \<and> ToAVFrame chunker_ext Video (30, - 1) = Some (blank_frame\<lparr>pts := 30, linesize0 := - 1\<rparr>)
   \<and> av_buffersrc_add_frame_flags chunker_ext (libav (holding (30, - 1)))
         (buffersrc_ctx (holding (30, - 1))) (blank_frame\<lparr>pts := 30, linesize0 := - 1\<rparr>)
       = (- 22, chunker0)
   \<and> (\<exists>s'. FilterThread_pass chunker_ext (holding (30, - 1)) = Some (Again, s')
          \<and> trace s' = trace (holding (30, - 1)) @
               [Dequeued (30, - 1), Feed (blank_frame\<lparr>pts := 30, linesize0 := - 1\<rparr>) (- 22),
                Log LogError
                  ''An error occurred while feeding the audio filtergraph: pts: %lld, linesize: %d, srate: %d, layout: %d, channels: %d, format: %d, rq: %d''
                  [- 9223372036854775808, 0, 0, 0, 0, - 1, 0]])"
proof -
  have a: "\<not> kill_flag (holding (30, - 1))" by code_simp
  have b: "Dequeue (input_buffer (holding (30, - 1))) = Item (30, - 1) (input_buffer started)"
    by code_simp
  have c: "ToAVFrame chunker_ext Video (30, - 1) = Some (blank_frame\<lparr>pts := 30, linesize0 := - 1\<rparr>)"
    by code_simp
  have d: "av_buffersrc_add_frame_flags chunker_ext (libav (holding (30, - 1)))
         (buffersrc_ctx (holding (30, - 1))) (blank_frame\<lparr>pts := 30, linesize0 := - 1\<rparr>)
       = (- 22, chunker0)"
    by code_simp
  have e: "(- 22 :: int) < 0" by simp
  have fr: "frame (holding (30, - 1)) = blank_frame" by code_simp
  have sz: "Size (input_buffer started) = 0" by code_simp
  from rejected_feed_logs_member_frame [OF a b c d e]
  have "\<exists>s'. FilterThread_pass chunker_ext (holding (30, - 1)) = Some (Again, s')
          \<and> trace s' = trace (holding (30, - 1)) @
               [Dequeued (30, - 1), Feed (blank_frame\<lparr>pts := 30, linesize0 := - 1\<rparr>) (- 22),
                Log LogError
                  ''An error occurred while feeding the audio filtergraph: pts: %lld, linesize: %d, srate: %d, layout: %d, channels: %d, format: %d, rq: %d''
                  [- 9223372036854775808, 0, 0, 0, 0, - 1, 0]]"
    by (simp add: fr sz blank_frame_def)
  then show ?thesis
    by (intro conjI a b c d)
qed

end
